theory Spec2Isabelle
  imports Main "HOL-Library.Word" "HOL-Library.Sublist"
begin

unbundle bit_operations_syntax

section \<open>The document tree consumed by the selectors\<close>

text \<open>
  The selectors read \<^verbatim>\<open>*html.Node\<close> values of \<^verbatim>\<open>golang.org/x/net/html\<close>:
  the fields \<^verbatim>\<open>Type\<close>, \<^verbatim>\<open>DataAtom\<close>, \<^verbatim>\<open>Data\<close>, \<^verbatim>\<open>Attr\<close> and the links
  \<^verbatim>\<open>Parent\<close>, \<^verbatim>\<open>FirstChild\<close>, \<^verbatim>\<open>PrevSibling\<close>, \<^verbatim>\<open>NextSibling\<close>. Nothing is ever
  written. A node pointer is modelled as a subtree together with its place in the
  document (the siblings to its left, nearest first, the data of its parent, the
  parent's own place, the siblings to its right), so that each link is a total function
  returning \<open>None\<close> for Go's \<^verbatim>\<open>nil\<close>, and every tree is well formed by construction.
\<close>

datatype NodeType =
  ErrorNode | TextNode | DocumentNode | ElementNode | CommentNode | DoctypeNode | RawNode

record Attribute =
  Namespace :: string
  Key :: string
  Val :: string

record NodeData =
  Type :: NodeType
  DataAtom :: "32 word"
  Data :: string
  Attr :: "Attribute list"

datatype tree = Tree (label: NodeData) (kids: "tree list")

datatype place = Top | Place (lefts: "tree list") NodeData place (rights: "tree list")

type_synonym Node = "tree \<times> place"

definition nType :: "Node \<Rightarrow> NodeType" where
  "nType n = Type (label (fst n))"

definition nDataAtom :: "Node \<Rightarrow> 32 word" where
  "nDataAtom n = DataAtom (label (fst n))"

definition nData :: "Node \<Rightarrow> string" where
  "nData n = Data (label (fst n))"

definition nAttr :: "Node \<Rightarrow> Attribute list" where
  "nAttr n = Attr (label (fst n))"

fun Parent :: "Node \<Rightarrow> Node option" where
  "Parent (t, Top) = None"
| "Parent (t, Place ls d u rs) = Some (Tree d (rev ls @ t # rs), u)"

fun PrevSibling :: "Node \<Rightarrow> Node option" where
  "PrevSibling (t, Place (l # ls) d u rs) = Some (l, Place ls d u (t # rs))"
| "PrevSibling (t, Place [] d u rs) = None"
| "PrevSibling (t, Top) = None"

fun NextSibling :: "Node \<Rightarrow> Node option" where
  "NextSibling (t, Place ls d u (r # rs)) = Some (r, Place (t # ls) d u rs)"
| "NextSibling (t, Place ls d u []) = None"
| "NextSibling (t, Top) = None"

fun FirstChild :: "Node \<Rightarrow> Node option" where
  "FirstChild (Tree d (k # ks), c) = Some (k, Place [] d c ks)"
| "FirstChild (Tree d [], c) = None"

fun depth :: "place \<Rightarrow> nat" where
  "depth Top = 0"
| "depth (Place ls d u rs) = Suc (depth u)"

section \<open>Panics and matchers\<close>

text \<open>
  A Go panic is a value: \<open>Panic msg\<close> for an explicit \<^verbatim>\<open>panic(msg)\<close> and
  \<open>NilDereference\<close> for a method call on a nil interface or pointer. A \<^verbatim>\<open>Matcher\<close>
  (and the older \<^verbatim>\<open>Selector\<close> function type) is its \<^verbatim>\<open>Match\<close> method.
\<close>

datatype panic = Panic string | NilDereference

type_synonym Matcher = "Node \<Rightarrow> panic + bool"

section \<open>Attribute matching\<close>

text \<open>
  \<^verbatim>\<open>matchAttribute\<close>: the loop over \<^verbatim>\<open>n.Attr\<close>. The callback is called only on the
  values of the pairs whose key is the one looked for; a panic inside it ends the loop.
\<close>

fun matchAttributeLoop :: "Attribute list \<Rightarrow> string \<Rightarrow> (string \<Rightarrow> panic + bool) \<Rightarrow> panic + bool" where
  "matchAttributeLoop [] k f = Inr False"
| "matchAttributeLoop (a # as) k f =
     (if Key a = k then
        (case f (Val a) of
           Inl e \<Rightarrow> Inl e
         | Inr b \<Rightarrow> if b then Inr True else matchAttributeLoop as k f)
      else matchAttributeLoop as k f)"

definition matchAttribute :: "Node \<Rightarrow> string \<Rightarrow> (string \<Rightarrow> panic + bool) \<Rightarrow> panic + bool" where
  "matchAttribute n k f = matchAttributeLoop (nAttr n) k f"

fun attributeNotEqualLoop :: "Attribute list \<Rightarrow> string \<Rightarrow> string \<Rightarrow> bool" where
  "attributeNotEqualLoop [] k v = True"
| "attributeNotEqualLoop (a # as) k v =
     (if Key a = k \<and> Val a = v then False else attributeNotEqualLoop as k v)"

definition attributeNotEqualMatch :: "string \<Rightarrow> string \<Rightarrow> Node \<Rightarrow> bool" where
  "attributeNotEqualMatch k v n =
     (if nType n \<noteq> ElementNode then False else attributeNotEqualLoop (nAttr n) k v)"

subsection \<open>The ASCII set of whitespace\<close>

text \<open>
  \<^verbatim>\<open>asciiSet\<close> is \<^verbatim>\<open>[8]uint32\<close>; character \<open>c\<close> is bit \<^verbatim>\<open>c&31\<close> of word \<^verbatim>\<open>c>>5\<close>.
\<close>

type_synonym asciiSet = "32 word list"

definition wordOf :: "char \<Rightarrow> nat" where
  "wordOf c = unat (drop_bit 5 (of_char c :: 8 word))"

definition bitOf :: "char \<Rightarrow> 32 word" where
  "bitOf c = push_bit (unat ((of_char c :: 8 word) AND 31)) 1"

fun makeASCIISetLoop :: "string \<Rightarrow> asciiSet \<Rightarrow> panic + asciiSet" where
  "makeASCIISetLoop [] as = Inr as"
| "makeASCIISetLoop (c # cs) as =
     (if (of_char c :: 8 word) \<ge> 0x80 then Inl (Panic ''non ascii input'')
      else makeASCIISetLoop cs (as[wordOf c := (as ! wordOf c) OR bitOf c]))"

definition makeASCIISet :: "string \<Rightarrow> panic + asciiSet" where
  "makeASCIISet chars = makeASCIISetLoop chars (replicate 8 0)"

definition contains :: "asciiSet \<Rightarrow> char \<Rightarrow> bool" where
  "contains as c = ((as ! wordOf c) AND bitOf c \<noteq> 0)"

fun indexFrom :: "asciiSet \<Rightarrow> string \<Rightarrow> int \<Rightarrow> int" where
  "indexFrom as [] i = - 1"
| "indexFrom as (c # cs) i = (if contains as c then i else indexFrom as cs (i + 1))"

definition index :: "asciiSet \<Rightarrow> string \<Rightarrow> int" where
  "index as s = indexFrom as s 0"

text \<open>
  \<^verbatim>\<open>var spaceAsciiSet = makeASCIISet(" \t\r\n\f")\<close>. The five characters are ASCII,
  so the initialiser does not panic (lemma \<open>makeASCIISet_space\<close> below).
\<close>

definition spaceChars :: string where
  "spaceChars = [CHR '' '', CHR 0x09, CHR 0x0D, CHR 0x0A, CHR 0x0C]"

definition spaceAsciiSet :: asciiSet where
  "spaceAsciiSet = (case makeASCIISet spaceChars of Inr as \<Rightarrow> as | Inl e \<Rightarrow> replicate 8 0)"

text \<open>
  \<^verbatim>\<open>matchInclude\<close>: \<^verbatim>\<open>s[:i]\<close> is \<open>take i s\<close> and \<^verbatim>\<open>s[i+1:]\<close> is \<open>drop (i + 1) s\<close>;
  \<open>i\<close> is an index into \<open>s\<close> there (lemma \<open>index_range\<close> below), so neither slice
  is out of range.
\<close>

function matchInclude :: "string \<Rightarrow> string \<Rightarrow> bool" where
  "matchInclude v s =
     (if s = [] then False
      else let i = index spaceAsciiSet s in
        if i = - 1 then s = v
        else if take (nat i) s = v then True
        else matchInclude v (drop (nat i + 1) s))"
  by pat_completeness auto
termination
  by (relation "measure (\<lambda>(v, s). length s)") auto

declare matchInclude.simps [simp del]

subsection \<open>The operators\<close>

text \<open>
  \<^verbatim>\<open>strings.HasPrefix\<close>, \<^verbatim>\<open>strings.HasSuffix\<close> and \<^verbatim>\<open>strings.Contains\<close> are
  \<open>prefix\<close>, \<open>suffix\<close> and \<open>sublist\<close> on byte strings. \<^verbatim>\<open>strings.TrimSpace\<close> (Unicode
  white space, decoded from UTF-8) belongs to Go's library and is a parameter
  \<open>TrimSpace\<close> of every function that reaches it. A compiled \<^verbatim>\<open>*regexp.Regexp\<close> is its
  \<^verbatim>\<open>MatchString\<close> method, \<open>None\<close> for a nil pointer.
\<close>

definition attributeDashMatch :: "string \<Rightarrow> string \<Rightarrow> Node \<Rightarrow> panic + bool" where
  "attributeDashMatch k v n =
     matchAttribute n k (\<lambda>s. Inr
       (if s = v then True
        else if length s \<le> length v then False
        else if take (length v) s = v \<and> s ! length v = CHR ''-'' then True
        else False))"

definition attributePrefixMatch :: "(string \<Rightarrow> string) \<Rightarrow> string \<Rightarrow> string \<Rightarrow> Node \<Rightarrow> panic + bool" where
  "attributePrefixMatch TrimSpace k v n =
     matchAttribute n k (\<lambda>s. Inr (if TrimSpace s = [] then False else prefix v s))"

definition attributeSuffixMatch :: "(string \<Rightarrow> string) \<Rightarrow> string \<Rightarrow> string \<Rightarrow> Node \<Rightarrow> panic + bool" where
  "attributeSuffixMatch TrimSpace k v n =
     matchAttribute n k (\<lambda>s. Inr (if TrimSpace s = [] then False else suffix v s))"

definition attributeSubstringMatch :: "(string \<Rightarrow> string) \<Rightarrow> string \<Rightarrow> string \<Rightarrow> Node \<Rightarrow> panic + bool" where
  "attributeSubstringMatch TrimSpace k v n =
     matchAttribute n k (\<lambda>s. Inr (if TrimSpace s = [] then False else sublist v s))"

definition attributeRegexMatch :: "string \<Rightarrow> (string \<Rightarrow> bool) option \<Rightarrow> Node \<Rightarrow> panic + bool" where
  "attributeRegexMatch k rx n =
     matchAttribute n k (\<lambda>s. case rx of None \<Rightarrow> Inl NilDereference | Some r \<Rightarrow> Inr (r s))"

section \<open>Selectors\<close>

record tagSelector =
  tagS :: string
  tag :: "32 word"

record attrSelector =
  key :: string
  val :: string
  operation :: string
  regexp :: "(string \<Rightarrow> bool) option"

text \<open>
  \<^verbatim>\<open>type Specificity [3]int\<close>, with Go's \<^verbatim>\<open>int\<close> taken at 64 bits: sums wrap around.
\<close>

type_synonym Specificity = "64 word \<times> 64 word \<times> 64 word"

text \<open>
  Modelled from the spec: \<^verbatim>\<open>Specificity.Add\<close>, whose file is not among the sources;
  the spec says that \<^verbatim>\<open>Add\<close> is the component-wise sum.
\<close>

fun Add :: "Specificity \<Rightarrow> Specificity \<Rightarrow> Specificity" where
  "Add (a, b, c) (a', b', c') = (a + a', b + b', c + c')"

text \<open>
  \<^verbatim>\<open>Sel\<close> is an interface. Its implementations in \<^verbatim>\<open>selector.go\<close> are the first seven
  constructors; the fields \<^verbatim>\<open>first\<close> and \<^verbatim>\<open>second\<close> of a \<^verbatim>\<open>combinedSelector\<close> are
  interface values and may be nil. The pseudo-class selectors live in a file that is not
  among the sources: \<open>otherSel\<close> stands for any further implementation, given by its
  \<^verbatim>\<open>Match\<close>, \<^verbatim>\<open>Specificity\<close> and \<^verbatim>\<open>PseudoElement\<close> methods.
\<close>

datatype Sel =
    tagSel tagSelector
  | classSel string
  | idSel string
  | attrSel attrSelector
  | neverMatchSel string
  | compoundSel "Sel list" string
  | combinedSel "Sel option" char "Sel option"
  | otherSel Matcher "panic + Specificity" string

definition tagSelector_Match :: "tagSelector \<Rightarrow> Node \<Rightarrow> bool" where
  "tagSelector_Match t n =
     (nType n = ElementNode \<and> ((nDataAtom n \<noteq> 0 \<and> nDataAtom n = tag t) \<or> nData n = tagS t))"

definition classSelector_Match :: "string \<Rightarrow> Node \<Rightarrow> panic + bool" where
  "classSelector_Match c n = matchAttribute n ''class'' (\<lambda>s. Inr (matchInclude c s))"

definition idSelector_Match :: "string \<Rightarrow> Node \<Rightarrow> panic + bool" where
  "idSelector_Match i n = matchAttribute n ''id'' (\<lambda>s. Inr (s = i))"

definition attrSelector_Match :: "(string \<Rightarrow> string) \<Rightarrow> attrSelector \<Rightarrow> Node \<Rightarrow> panic + bool" where
  "attrSelector_Match TrimSpace t n =
     (if operation t = [] then matchAttribute n (key t) (\<lambda>s. Inr True)
      else if operation t = ''='' then matchAttribute n (key t) (\<lambda>s. Inr (s = val t))
      else if operation t = ''!='' then Inr (attributeNotEqualMatch (key t) (val t) n)
      else if operation t = ''~='' then matchAttribute n (key t) (\<lambda>s. Inr (matchInclude (val t) s))
      else if operation t = ''|='' then attributeDashMatch (key t) (val t) n
      else if operation t = ''^='' then attributePrefixMatch TrimSpace (key t) (val t) n
      else if operation t = ''$='' then attributeSuffixMatch TrimSpace (key t) (val t) n
      else if operation t = ''*='' then attributeSubstringMatch TrimSpace (key t) (val t) n
      else if operation t = ''#='' then attributeRegexMatch (key t) (regexp t) n
      else Inl (Panic (''unsuported operation : '' @ operation t)))"

subsection \<open>The walks of the combinators\<close>

text \<open>
  \<^verbatim>\<open>for p := n.Parent; p != nil; p = p.Parent\<close>, and the two loops over
  \<^verbatim>\<open>PrevSibling\<close>, each as a recursion on the pointer the loop holds.
\<close>

function ancestorLoop :: "Matcher \<Rightarrow> Node option \<Rightarrow> panic + bool" where
  "ancestorLoop a None = Inr False"
| "ancestorLoop a (Some p) =
     (case a p of
        Inl e \<Rightarrow> Inl e
      | Inr b \<Rightarrow> if b then Inr True else ancestorLoop a (Parent p))"
  by pat_completeness auto
termination
proof (relation "measure (\<lambda>(a, po). case po of None \<Rightarrow> 0 | Some p \<Rightarrow> Suc (depth (snd p)))")
  show "wf (measure (\<lambda>(a, po). case po of None \<Rightarrow> 0 | Some p \<Rightarrow> Suc (depth (snd p))))"
    by simp
next
  fix a :: Matcher and p :: Node and b :: bool
  show "((a, Parent p), (a, Some p))
          \<in> measure (\<lambda>(a, po). case po of None \<Rightarrow> 0 | Some p \<Rightarrow> Suc (depth (snd p)))"
    by (cases p rule: Parent.cases) simp_all
qed

definition descendantMatch :: "Matcher \<Rightarrow> Matcher \<Rightarrow> Node \<Rightarrow> panic + bool" where
  "descendantMatch a d n =
     (case d n of
        Inl e \<Rightarrow> Inl e
      | Inr b \<Rightarrow> if \<not> b then Inr False else ancestorLoop a (Parent n))"

definition childMatch :: "Matcher \<Rightarrow> Matcher \<Rightarrow> Node \<Rightarrow> panic + bool" where
  "childMatch a d n =
     (case d n of
        Inl e \<Rightarrow> Inl e
      | Inr b \<Rightarrow>
          if \<not> b then Inr False
          else (case Parent n of None \<Rightarrow> Inr False | Some p \<Rightarrow> a p))"

function adjacentLoop :: "Matcher \<Rightarrow> Node option \<Rightarrow> panic + bool" where
  "adjacentLoop s1 None = Inr False"
| "adjacentLoop s1 (Some n) =
     (if nType n = TextNode \<or> nType n = CommentNode then adjacentLoop s1 (PrevSibling n)
      else s1 n)"
  by pat_completeness auto
termination
proof (relation "measure (\<lambda>(a, po). case po of None \<Rightarrow> 0 | Some p \<Rightarrow> Suc (length (lefts (snd p))))")
  show "wf (measure (\<lambda>(a, po). case po of None \<Rightarrow> 0 | Some p \<Rightarrow> Suc (length (lefts (snd p)))))"
    by simp
next
  fix s1 :: Matcher and n :: Node
  show "((s1, PrevSibling n), (s1, Some n))
          \<in> measure (\<lambda>(a, po). case po of None \<Rightarrow> 0 | Some p \<Rightarrow> Suc (length (lefts (snd p))))"
    by (cases n rule: PrevSibling.cases) simp_all
qed

function precedingLoop :: "Matcher \<Rightarrow> Node option \<Rightarrow> panic + bool" where
  "precedingLoop s1 None = Inr False"
| "precedingLoop s1 (Some c) =
     (case s1 c of
        Inl e \<Rightarrow> Inl e
      | Inr b \<Rightarrow> if b then Inr True else precedingLoop s1 (PrevSibling c))"
  by pat_completeness auto
termination
proof (relation "measure (\<lambda>(a, po). case po of None \<Rightarrow> 0 | Some p \<Rightarrow> Suc (length (lefts (snd p))))")
  show "wf (measure (\<lambda>(a, po). case po of None \<Rightarrow> 0 | Some p \<Rightarrow> Suc (length (lefts (snd p)))))"
    by simp
next
  fix s1 :: Matcher and c :: Node
  show "((s1, PrevSibling c), (s1, Some c))
          \<in> measure (\<lambda>(a, po). case po of None \<Rightarrow> 0 | Some p \<Rightarrow> Suc (length (lefts (snd p))))"
    by (cases c rule: PrevSibling.cases) simp_all
qed

definition siblingMatch :: "Matcher \<Rightarrow> Matcher \<Rightarrow> bool \<Rightarrow> Node \<Rightarrow> panic + bool" where
  "siblingMatch s1 s2 adjacent n =
     (case s2 n of
        Inl e \<Rightarrow> Inl e
      | Inr b \<Rightarrow>
          if \<not> b then Inr False
          else if adjacent then adjacentLoop s1 (PrevSibling n)
          else precedingLoop s1 (PrevSibling n))"

subsection \<open>The methods of \<^verbatim>\<open>Sel\<close>\<close>

text \<open>
  \<open>Match\<close> dispatches on the implementation. \<open>compoundLoop\<close> is the \<^verbatim>\<open>range\<close> loop of
  \<^verbatim>\<open>compoundSelector.Match\<close>; \<open>MatchNil\<close> is a call of \<^verbatim>\<open>Match\<close> on an interface
  value that may be nil.
\<close>

fun Match :: "(string \<Rightarrow> string) \<Rightarrow> Sel \<Rightarrow> Node \<Rightarrow> panic + bool"
  and compoundLoop :: "(string \<Rightarrow> string) \<Rightarrow> Sel list \<Rightarrow> Node \<Rightarrow> panic + bool"
  and MatchNil :: "(string \<Rightarrow> string) \<Rightarrow> Sel option \<Rightarrow> Node \<Rightarrow> panic + bool"
where
  "Match TrimSpace (tagSel t) n = Inr (tagSelector_Match t n)"
| "Match TrimSpace (classSel c) n = classSelector_Match c n"
| "Match TrimSpace (idSel i) n = idSelector_Match i n"
| "Match TrimSpace (attrSel t) n = attrSelector_Match TrimSpace t n"
| "Match TrimSpace (neverMatchSel v) n = Inr False"
| "Match TrimSpace (compoundSel sels pe) n =
     (if length sels = 0 then Inr (nType n = ElementNode)
      else compoundLoop TrimSpace sels n)"
| "Match TrimSpace (combinedSel None c second) n = Inr False"
| "Match TrimSpace (combinedSel (Some first) c second) n =
     (if c = CHR 0x00 then Match TrimSpace first n
      else if c = CHR '' '' then
        descendantMatch (Match TrimSpace first) (MatchNil TrimSpace second) n
      else if c = CHR ''>'' then
        childMatch (Match TrimSpace first) (MatchNil TrimSpace second) n
      else if c = CHR ''+'' then
        siblingMatch (Match TrimSpace first) (MatchNil TrimSpace second) True n
      else if c = CHR ''~'' then
        siblingMatch (Match TrimSpace first) (MatchNil TrimSpace second) False n
      else Inl (Panic ''unknown combinator''))"
| "Match TrimSpace (otherSel m sp pe) n = m n"
| "compoundLoop TrimSpace [] n = Inr True"
| "compoundLoop TrimSpace (sel # sels) n =
     (case Match TrimSpace sel n of
        Inl e \<Rightarrow> Inl e
      | Inr b \<Rightarrow> if \<not> b then Inr False else compoundLoop TrimSpace sels n)"
| "MatchNil TrimSpace None n = Inl NilDereference"
| "MatchNil TrimSpace (Some sel) n = Match TrimSpace sel n"

fun Specificity :: "Sel \<Rightarrow> panic + Specificity"
  and specificityLoop :: "Sel list \<Rightarrow> Specificity \<Rightarrow> panic + Specificity"
where
  "Specificity (tagSel t) = Inr (0, 0, 1)"
| "Specificity (classSel c) = Inr (0, 1, 0)"
| "Specificity (idSel i) = Inr (1, 0, 0)"
| "Specificity (attrSel t) = Inr (0, 1, 0)"
| "Specificity (neverMatchSel v) = Inr (0, 0, 0)"
| "Specificity (compoundSel sels pe) =
     (case specificityLoop sels (0, 0, 0) of
        Inl e \<Rightarrow> Inl e
      | Inr out \<Rightarrow> Inr (if pe \<noteq> [] then Add out (0, 0, 1) else out))"
| "Specificity (combinedSel None c second) = Inl NilDereference"
| "Specificity (combinedSel (Some first) c second) =
     (case Specificity first of
        Inl e \<Rightarrow> Inl e
      | Inr spec \<Rightarrow>
          (case second of
             None \<Rightarrow> Inr spec
           | Some sel \<Rightarrow>
               (case Specificity sel of
                  Inl e \<Rightarrow> Inl e
                | Inr spec2 \<Rightarrow> Inr (Add spec spec2))))"
| "Specificity (otherSel m sp pe) = sp"
| "specificityLoop [] out = Inr out"
| "specificityLoop (sel # sels) out =
     (case Specificity sel of
        Inl e \<Rightarrow> Inl e
      | Inr sp \<Rightarrow> specificityLoop sels (Add out sp))"

fun PseudoElement :: "Sel \<Rightarrow> string" where
  "PseudoElement (compoundSel sels pe) = pe"
| "PseudoElement (combinedSel first c None) = []"
| "PseudoElement (combinedSel first c (Some sel)) = PseudoElement sel"
| "PseudoElement (otherSel m sp pe) = pe"
| "PseudoElement sel = []"

section \<open>The query functions\<close>

text \<open>
  \<^verbatim>\<open>matchAllInto\<close> and \<^verbatim>\<open>queryInto\<close> recurse on the children inside a loop
  \<^verbatim>\<open>for child := n.FirstChild; child != nil; child = child.NextSibling\<close>. The loop is
  a second function on the pointer it holds; \<^verbatim>\<open>append(storage, n)\<close> is \<open>storage @ [n]\<close>.
  Both terminate because a child is a smaller tree and each step of the loop leaves
  fewer siblings to the right.
\<close>

fun nodes :: "tree \<Rightarrow> nat" where
  "nodes (Tree d ks) = Suc (sum_list (map nodes ks))"

fun toTheRight :: "place \<Rightarrow> tree list" where
  "toTheRight Top = []"
| "toTheRight (Place ls d u rs) = rs"

definition loopSize :: "Node option \<Rightarrow> nat" where
  "loopSize po =
     (case po of
        None \<Rightarrow> 0
      | Some c \<Rightarrow> 2 * (nodes (fst c) + sum_list (map nodes (toTheRight (snd c)))) + 1)"

lemma nodes_pos: "0 < nodes t"
  by (cases t) simp

lemma loopSize_FirstChild: "loopSize (FirstChild n) < 2 * nodes (fst n)"
  by (cases n rule: FirstChild.cases) (simp_all add: loopSize_def)

lemma loopSize_NextSibling: "loopSize (NextSibling c) < loopSize (Some c)"
  by (cases c rule: NextSibling.cases) (simp_all add: loopSize_def nodes_pos)

lemma loopSize_Some: "2 * nodes (fst c) < loopSize (Some c)"
  by (simp add: loopSize_def)

function matchAllInto :: "Matcher \<Rightarrow> Node \<Rightarrow> Node list \<Rightarrow> panic + Node list"
  and matchAllLoop :: "Matcher \<Rightarrow> Node option \<Rightarrow> Node list \<Rightarrow> panic + Node list"
where
  "matchAllInto s n storage =
     (case s n of
        Inl e \<Rightarrow> Inl e
      | Inr b \<Rightarrow> matchAllLoop s (FirstChild n) (if b then storage @ [n] else storage))"
| "matchAllLoop s None storage = Inr storage"
| "matchAllLoop s (Some child) storage =
     (case matchAllInto s child storage of
        Inl e \<Rightarrow> Inl e
      | Inr storage' \<Rightarrow> matchAllLoop s (NextSibling child) storage')"
  by pat_completeness auto
termination
  by (relation "measure (\<lambda>x. case x of
         Inl (s, n, storage) \<Rightarrow> 2 * nodes (fst n)
       | Inr (s, po, storage) \<Rightarrow> loopSize po)")
     (simp_all add: loopSize_FirstChild loopSize_NextSibling loopSize_Some)

definition MatchAll :: "Matcher \<Rightarrow> Node \<Rightarrow> panic + Node list" where
  "MatchAll s n = matchAllInto s n []"

function queryInto :: "Node \<Rightarrow> Matcher \<Rightarrow> Node list \<Rightarrow> panic + Node list"
  and queryLoop :: "Node option \<Rightarrow> Matcher \<Rightarrow> Node list \<Rightarrow> panic + Node list"
where
  "queryInto n m storage = queryLoop (FirstChild n) m storage"
| "queryLoop None m storage = Inr storage"
| "queryLoop (Some child) m storage =
     (case m child of
        Inl e \<Rightarrow> Inl e
      | Inr b \<Rightarrow>
          (case queryInto child m (if b then storage @ [child] else storage) of
             Inl e \<Rightarrow> Inl e
           | Inr storage' \<Rightarrow> queryLoop (NextSibling child) m storage'))"
  by pat_completeness auto
termination
  by (relation "measure (\<lambda>x. case x of
         Inl (n, m, storage) \<Rightarrow> 2 * nodes (fst n)
       | Inr (po, m, storage) \<Rightarrow> loopSize po)")
     (simp_all add: loopSize_FirstChild loopSize_NextSibling loopSize_Some)

definition QueryAll :: "Node \<Rightarrow> Matcher \<Rightarrow> panic + Node list" where
  "QueryAll n m = queryInto n m []"

section \<open>Concrete inputs\<close>

text \<open>
  The documents at which the theorems below are evaluated, and the function put for the
  parameter \<open>TrimSpace\<close> there. \<open>asciiTrim\<close> removes the six ASCII white space characters
  from both ends; it is \<^verbatim>\<open>strings.TrimSpace\<close> on strings of bytes below \<^verbatim>\<open>0x80\<close>, the only
  ones it is applied to here, and not on others (it keeps the white space that UTF-8
  writes in several bytes). No theorem but the evaluations depends on it: the others
  hold for every \<open>TrimSpace\<close>. \<open>family\<close> is
  \<^verbatim>\<open><div><p class="a" id="one"/>text<!--note--><p class=" b" id="two"/></div>\<close>.
\<close>

definition attr :: "string \<Rightarrow> string \<Rightarrow> Attribute" where
  "attr k v = \<lparr>Namespace = [], Key = k, Val = v\<rparr>"

definition elem :: "string \<Rightarrow> Attribute list \<Rightarrow> tree list \<Rightarrow> tree" where
  "elem name attrs ks = Tree \<lparr>Type = ElementNode, DataAtom = 0, Data = name, Attr = attrs\<rparr> ks"

definition leaf :: "NodeType \<Rightarrow> string \<Rightarrow> tree" where
  "leaf ty txt = Tree \<lparr>Type = ty, DataAtom = 0, Data = txt, Attr = []\<rparr> []"

definition asciiTrim :: "string \<Rightarrow> string" where
  "asciiTrim s = rev (dropWhile (\<lambda>c. c \<in> set (CHR 0x0B # spaceChars))
                   (rev (dropWhile (\<lambda>c. c \<in> set (CHR 0x0B # spaceChars)) s)))"

definition pOne :: tree where
  "pOne = elem ''p'' [attr ''class'' ''a'', attr ''id'' ''one''] []"

definition pTwo :: tree where
  "pTwo = elem ''p'' [attr ''class'' '' b'', attr ''id'' ''two''] []"

definition family :: Node where
  "family = (elem ''div'' [] [pOne, leaf TextNode ''text'', leaf CommentNode ''note'', pTwo], Top)"

definition nodeOne :: Node where
  "nodeOne = (pOne, Place [] (label (fst family)) Top
                [leaf TextNode ''text'', leaf CommentNode ''note'', pTwo])"

definition nodeTwo :: Node where
  "nodeTwo = (pTwo, Place [leaf CommentNode ''note'', leaf TextNode ''text'', pOne]
                (label (fst family)) Top [])"

section \<open>Properties of the matching engine\<close>

subsection \<open>Compound selectors\<close>

lemma compoundLoop_True:
  "(compoundLoop TrimSpace sels n = Inr True) = (\<forall>sel\<in>set sels. Match TrimSpace sel n = Inr True)"
  by (induction sels) (auto split: sum.splits)

lemma compoundLoop_total:
  "\<forall>sel\<in>set sels. \<exists>b. Match TrimSpace sel n = Inr b \<Longrightarrow>
   compoundLoop TrimSpace sels n = Inr (\<forall>sel\<in>set sels. Match TrimSpace sel n = Inr True)"
  by (induction sels) (auto split: sum.splits)

text \<open>
  C8. A \<^verbatim>\<open>compoundSelector\<close> with no member matches exactly the element nodes. With
  members, it matches a node exactly when every member matches it; and when no member
  panics on the node, \<^verbatim>\<open>Match\<close> returns that truth value.
\<close>

theorem compoundSelector_Match_all:
  "Match TrimSpace (compoundSel [] pe) n = Inr (nType n = ElementNode) \<and>
   (sels \<noteq> [] \<longrightarrow>
      (Match TrimSpace (compoundSel sels pe) n = Inr True)
        = (\<forall>sel\<in>set sels. Match TrimSpace sel n = Inr True)) \<and>
   (sels \<noteq> [] \<longrightarrow> (\<forall>sel\<in>set sels. \<exists>b. Match TrimSpace sel n = Inr b) \<longrightarrow>
      Match TrimSpace (compoundSel sels pe) n
        = Inr (\<forall>sel\<in>set sels. Match TrimSpace sel n = Inr True))"
proof (intro conjI impI)
  show "Match TrimSpace (compoundSel [] pe) n = Inr (nType n = ElementNode)"
    by simp
next
  assume "sels \<noteq> []"
  then show "(Match TrimSpace (compoundSel sels pe) n = Inr True)
      = (\<forall>sel\<in>set sels. Match TrimSpace sel n = Inr True)"
    by (simp add: compoundLoop_True)
next
  assume "sels \<noteq> []" and "\<forall>sel\<in>set sels. \<exists>b. Match TrimSpace sel n = Inr b"
  then show "Match TrimSpace (compoundSel sels pe) n
      = Inr (\<forall>sel\<in>set sels. Match TrimSpace sel n = Inr True)"
    by (simp add: compoundLoop_total)
qed

theorem compoundSelector_Match_all_witness:
  "Match asciiTrim (compoundSel [] []) nodeOne = Inr True \<and>
   Match asciiTrim (compoundSel [classSel ''a'', idSel ''one''] []) nodeOne = Inr True \<and>
   Match asciiTrim (compoundSel [classSel ''a'', idSel ''one''] []) nodeTwo = Inr False"
proof -
  note inst = compoundSelector_Match_all [of asciiTrim "[]" _ "[classSel ''a'', idSel ''one'']"]
  have one: "\<forall>sel\<in>set [classSel ''a'', idSel ''one'']. Match asciiTrim sel nodeOne = Inr True"
    by code_simp
  have two: "\<forall>sel\<in>set [classSel ''a'', idSel ''one'']. \<exists>b. Match asciiTrim sel nodeTwo = Inr b"
    by code_simp
  have notTwo: "\<not> (\<forall>sel\<in>set [classSel ''a'', idSel ''one'']. Match asciiTrim sel nodeTwo = Inr True)"
    by code_simp
  have elt: "nType nodeOne = ElementNode"
    by code_simp
  show ?thesis
    using inst [of nodeOne] inst [of nodeTwo] one two notTwo elt by simp
qed

subsection \<open>A combined selector without a left side\<close>

text \<open>
  C10. When the field \<^verbatim>\<open>first\<close> of a \<^verbatim>\<open>combinedSelector\<close> is nil, \<^verbatim>\<open>Match\<close> returns
  false on every node, whatever the combinator and the right side are: it does not panic.
\<close>

theorem combinedSelector_Match_nil_first:
  "Match TrimSpace (combinedSel None c second) n = Inr False"
  by simp

theorem combinedSelector_Match_nil_first_witness:
  "Match asciiTrim (combinedSel None (CHR ''+'') None) nodeTwo = Inr False \<and>
   Match asciiTrim (combinedSel None (CHR ''?'') (Some (classSel ''b''))) nodeTwo = Inr False"
  using combinedSelector_Match_nil_first [of asciiTrim "CHR ''+''" None nodeTwo]
    combinedSelector_Match_nil_first [of asciiTrim "CHR ''?''" "Some (classSel ''b'')" nodeTwo]
  by simp

subsection \<open>Specificity of a compound selector\<close>

lemma Add_assoc: "Add (Add x y) z = Add x (Add y z)"
  by (cases x, cases y, cases z) simp

lemma Add_zero: "Add x (0, 0, 0) = x"
  by (cases x) simp

lemma specificityLoop_returns:
  "map Specificity sels = map Inr sps \<Longrightarrow>
   specificityLoop sels out =
     Inr (Add out (sum_list (map fst sps), sum_list (map (fst \<circ> snd) sps),
                   sum_list (map (snd \<circ> snd) sps)))"
proof (induction sels arbitrary: out sps)
  case Nil
  then show ?case by (simp add: Add_zero)
next
  case (Cons sel sels)
  from Cons.prems obtain sp rest where sps: "sps = sp # rest"
    and sp: "Specificity sel = Inr sp" and rest: "map Specificity sels = map Inr rest"
    by (cases sps) auto
  have "specificityLoop (sel # sels) out = specificityLoop sels (Add out sp)"
    by (simp add: sp)
  also have "\<dots> = Inr (Add (Add out sp) (sum_list (map fst rest),
      sum_list (map (fst \<circ> snd) rest), sum_list (map (snd \<circ> snd) rest)))"
    by (rule Cons.IH [OF rest])
  also have "\<dots> = Inr (Add out (sum_list (map fst sps), sum_list (map (fst \<circ> snd) sps),
      sum_list (map (snd \<circ> snd) sps)))"
    by (cases sp) (simp add: sps Add_assoc)
  finally show ?case .
qed

lemma specificityLoop_panics:
  "sel \<in> set sels \<Longrightarrow> Specificity sel = Inl e \<Longrightarrow> \<exists>e'. specificityLoop sels out = Inl e'"
  by (induction sels arbitrary: out) (auto split: sum.splits)

text \<open>
  C7. When the members of a \<^verbatim>\<open>compoundSelector\<close> have the specificities \<open>sps\<close>, its
  \<^verbatim>\<open>Specificity()\<close> is, component by component, the sum of \<open>sps\<close>, with one more in
  the third component exactly when the pseudo-element name is not empty. (A member whose
  \<^verbatim>\<open>Specificity()\<close> panics makes the compound's panic.)
\<close>

theorem compoundSelector_Specificity_sum:
  "(map Specificity sels = map Inr sps \<longrightarrow>
      Specificity (compoundSel sels pe) =
        Inr (sum_list (map fst sps),
             sum_list (map (fst \<circ> snd) sps),
             sum_list (map (snd \<circ> snd) sps) + (if pe \<noteq> [] then 1 else 0))) \<and>
   ((\<exists>sel\<in>set sels. \<exists>e. Specificity sel = Inl e) \<longrightarrow>
      (\<exists>e. Specificity (compoundSel sels pe) = Inl e))"
proof (intro conjI impI)
  assume "map Specificity sels = map Inr sps"
  then have "specificityLoop sels (0, 0, 0) =
      Inr (sum_list (map fst sps), sum_list (map (fst \<circ> snd) sps),
           sum_list (map (snd \<circ> snd) sps))"
    by (simp add: specificityLoop_returns)
  then show "Specificity (compoundSel sels pe) =
      Inr (sum_list (map fst sps), sum_list (map (fst \<circ> snd) sps),
           sum_list (map (snd \<circ> snd) sps) + (if pe \<noteq> [] then 1 else 0))"
    by simp
next
  assume "\<exists>sel\<in>set sels. \<exists>e. Specificity sel = Inl e"
  then obtain sel e where "sel \<in> set sels" and "Specificity sel = Inl e"
    by blast
  then obtain e' where "specificityLoop sels (0, 0, 0) = Inl e'"
    using specificityLoop_panics by blast
  then show "\<exists>e. Specificity (compoundSel sels pe) = Inl e"
    by simp
qed

theorem compoundSelector_Specificity_sum_witness:
  "Specificity (compoundSel [tagSel \<lparr>tagS = ''p'', tag = 0\<rparr>, idSel ''one'', classSel ''a'',
       attrSel \<lparr>key = ''k'', val = [], operation = [], regexp = None\<rparr>] ''before'')
     = Inr (1, 2, 2) \<and>
   Specificity (compoundSel [tagSel \<lparr>tagS = ''p'', tag = 0\<rparr>, idSel ''one'', classSel ''a'',
       attrSel \<lparr>key = ''k'', val = [], operation = [], regexp = None\<rparr>] [])
     = Inr (1, 2, 1) \<and>
   (\<exists>e. Specificity (compoundSel [classSel ''a'', combinedSel None (CHR ''>'') None] []) = Inl e)"
proof -
  let ?sels = "[tagSel \<lparr>tagS = ''p'', tag = 0\<rparr>, idSel ''one'', classSel ''a'',
       attrSel \<lparr>key = ''k'', val = [], operation = [], regexp = None\<rparr>]"
  let ?sps = "[(0, 0, 1), (1, 0, 0), (0, 1, 0), (0, 1, 0)] :: Specificity list"
  have members: "map Specificity ?sels = map Inr ?sps"
    by simp
  have panics: "\<exists>sel\<in>set [classSel ''a'', combinedSel None (CHR ''>'') None].
      \<exists>e. Specificity sel = Inl e"
    by simp
  show ?thesis
    using compoundSelector_Specificity_sum [of ?sels ?sps "''before''"]
      compoundSelector_Specificity_sum [of ?sels ?sps "[]"]
      compoundSelector_Specificity_sum [of "[classSel ''a'', combinedSel None (CHR ''>'') None]" "[]" "[]"]
      members panics
    by simp
qed

subsection \<open>The adjacent-sibling combinator\<close>

text \<open>
  The preceding siblings of a node, nearest first, and the nearest of them that is
  neither a text node nor a comment node.
\<close>

fun leftward :: "tree \<Rightarrow> tree list \<Rightarrow> NodeData \<Rightarrow> place \<Rightarrow> tree list \<Rightarrow> Node list" where
  "leftward t [] d u rs = []"
| "leftward t (l # ls) d u rs = (l, Place ls d u (t # rs)) # leftward l ls d u (t # rs)"

fun precedingSiblings :: "Node \<Rightarrow> Node list" where
  "precedingSiblings (t, Top) = []"
| "precedingSiblings (t, Place ls d u rs) = leftward t ls d u rs"

definition nearestNonTextSibling :: "Node \<Rightarrow> Node option" where
  "nearestNonTextSibling n =
     find (\<lambda>p. nType p \<noteq> TextNode \<and> nType p \<noteq> CommentNode) (precedingSiblings n)"

text \<open>Whether an interface value that may be nil is a selector matching the node.\<close>

definition matches :: "(string \<Rightarrow> string) \<Rightarrow> Sel option \<Rightarrow> Node \<Rightarrow> bool" where
  "matches TrimSpace so n = (case so of None \<Rightarrow> False | Some sel \<Rightarrow> Match TrimSpace sel n = Inr True)"

lemma precedingSiblings_PrevSibling:
  "precedingSiblings n = (case PrevSibling n of None \<Rightarrow> [] | Some p \<Rightarrow> p # precedingSiblings p)"
  by (cases n rule: PrevSibling.cases) simp_all

lemma adjacentLoop_leftward:
  "adjacentLoop s1 (PrevSibling (t, Place ls d u rs)) =
     (case find (\<lambda>p. nType p \<noteq> TextNode \<and> nType p \<noteq> CommentNode) (leftward t ls d u rs) of
        None \<Rightarrow> Inr False
      | Some p \<Rightarrow> s1 p)"
  by (induction ls arbitrary: t rs) auto

lemma adjacentLoop_nearest:
  "adjacentLoop s1 (PrevSibling n) =
     (case nearestNonTextSibling n of None \<Rightarrow> Inr False | Some p \<Rightarrow> s1 p)"
proof (cases n)
  case (Pair t c)
  show ?thesis
  proof (cases c)
    case Top
    with Pair show ?thesis by (simp add: nearestNonTextSibling_def)
  next
    case (Place ls d u rs)
    with Pair show ?thesis by (simp add: nearestNonTextSibling_def adjacentLoop_leftward)
  qed
qed

lemma MatchNil_True: "(MatchNil TrimSpace so n = Inr True) = matches TrimSpace so n"
  by (cases so) (simp_all add: matches_def)

text \<open>
  C6. A \<^verbatim>\<open>combinedSelector\<close> with the combinator \<^verbatim>\<open>+\<close> matches a node exactly when
  its right side matches the node and the nearest preceding sibling that is neither text
  nor comment exists and matches its left side. When neither side panics on the nodes
  it is asked about, \<^verbatim>\<open>Match\<close> returns that truth value.
\<close>

theorem combinedSelector_Match_adjacent:
  "((Match TrimSpace (combinedSel first (CHR ''+'') second) n = Inr True) =
      (matches TrimSpace second n \<and>
       (\<exists>p. nearestNonTextSibling n = Some p \<and> matches TrimSpace first p))) \<and>
   ((\<exists>b. Match TrimSpace d n = Inr b) \<longrightarrow>
    (\<forall>p. nearestNonTextSibling n = Some p \<longrightarrow> (\<exists>b. Match TrimSpace a p = Inr b)) \<longrightarrow>
      Match TrimSpace (combinedSel (Some a) (CHR ''+'') (Some d)) n =
        Inr (Match TrimSpace d n = Inr True \<and>
             (\<exists>p. nearestNonTextSibling n = Some p \<and> Match TrimSpace a p = Inr True)))"
proof (intro conjI impI)
  show "(Match TrimSpace (combinedSel first (CHR ''+'') second) n = Inr True) =
      (matches TrimSpace second n \<and>
       (\<exists>p. nearestNonTextSibling n = Some p \<and> matches TrimSpace first p))"
  proof (cases first)
    case None
    then show ?thesis by (simp add: matches_def)
  next
    case (Some f)
    have "(Match TrimSpace (combinedSel (Some f) (CHR ''+'') second) n = Inr True) =
        (MatchNil TrimSpace second n = Inr True \<and>
         (\<exists>p. nearestNonTextSibling n = Some p \<and> Match TrimSpace f p = Inr True))"
      by (auto simp: siblingMatch_def adjacentLoop_nearest split: sum.splits option.splits)
    with Some show ?thesis by (simp add: MatchNil_True matches_def)
  qed
next
  assume "\<exists>b. Match TrimSpace d n = Inr b"
    and "\<forall>p. nearestNonTextSibling n = Some p \<longrightarrow> (\<exists>b. Match TrimSpace a p = Inr b)"
  then show "Match TrimSpace (combinedSel (Some a) (CHR ''+'') (Some d)) n =
      Inr (Match TrimSpace d n = Inr True \<and>
           (\<exists>p. nearestNonTextSibling n = Some p \<and> Match TrimSpace a p = Inr True))"
    by (auto simp: siblingMatch_def adjacentLoop_nearest split: sum.splits option.splits)
qed

theorem combinedSelector_Match_adjacent_witness:
  "nearestNonTextSibling nodeTwo = Some nodeOne \<and>
   Match asciiTrim (combinedSel (Some (classSel ''a'')) (CHR ''+'') (Some (idSel ''two''))) nodeTwo
     = Inr True \<and>
   Match asciiTrim (combinedSel (Some (classSel ''a'')) (CHR ''+'') (Some (idSel ''one''))) nodeOne
     = Inr False"
proof -
  have near: "nearestNonTextSibling nodeTwo = Some nodeOne"
    by code_simp
  have none: "nearestNonTextSibling nodeOne = None"
    by code_simp
  have right: "matches asciiTrim (Some (idSel ''two'')) nodeTwo"
    by code_simp
  have left: "matches asciiTrim (Some (classSel ''a'')) nodeOne"
    by code_simp
  have returns: "\<exists>b. Match asciiTrim (idSel ''one'') nodeOne = Inr b"
    by code_simp
  show ?thesis
    using combinedSelector_Match_adjacent
        [of asciiTrim "Some (classSel ''a'')" "Some (idSel ''two'')" nodeTwo "idSel ''one''" "classSel ''a''"]
      combinedSelector_Match_adjacent
        [of asciiTrim "Some (classSel ''a'')" "Some (idSel ''one'')" nodeOne "idSel ''one''" "classSel ''a''"]
      near none right left returns
    by simp
qed

section \<open>Properties of attribute matching\<close>

subsection \<open>The whitespace set\<close>

text \<open>
  \<^verbatim>\<open>makeASCIISet\<close> builds a set that \<^verbatim>\<open>contains\<close> exactly the characters it was
  given; so \<^verbatim>\<open>spaceAsciiSet\<close> holds space, tab, CR, LF and FF and nothing else.
\<close>

lemma unat_of_char: "unat (of_char c :: 8 word) = of_char c"
proof -
  have "(of_char c :: 8 word) = of_nat (of_char c)" by (simp only: of_nat_of_char)
  then show ?thesis
    by (simp only: unat_of_nat) simp
qed

lemma wordOf_nat: "wordOf c = of_char c div 32"
  by (simp add: wordOf_def unat_drop_bit_eq drop_bit_eq_div unat_div unat_of_char)

lemma and31: "unat ((w :: 8 word) AND 31) = unat w mod 32"
proof -
  have "(31 :: 8 word) = mask 5" by (simp add: mask_eq_exp_minus_1)
  then have "w AND 31 = take_bit 5 w" by (simp only: take_bit_eq_mask)
  then show ?thesis by (simp add: take_bit_eq_mod unat_mod)
qed

lemma bitOf_nat: "bitOf c = push_bit (of_char c mod 32) 1"
  by (simp only: bitOf_def and31 unat_of_char)

lemma bit_or_one: "i < 32 \<Longrightarrow> j < 32 \<Longrightarrow> (((w :: 32 word) OR push_bit i 1) AND push_bit j 1 \<noteq> 0) = (w AND push_bit j 1 \<noteq> 0 \<or> i = j)"
  apply (simp only: bit_iff_and_push_bit_not_eq_0 [symmetric] bit_or_iff bit_push_bit_iff bit_1_iff)
  apply (auto simp: possible_bit_word)
  done

lemma wordOf_less: "wordOf c < 8"
proof -
  have "(of_char c :: nat) < 256" by simp
  then show ?thesis unfolding wordOf_nat by linarith
qed

lemma char_eq_iff: "(c = x) = (wordOf c = wordOf x \<and> (of_char c :: nat) mod 32 = of_char x mod 32)"
proof -
  have "(c = x) = ((of_char c :: nat) = of_char x)" by (simp only: of_char_eq_iff)
  also have "\<dots> = ((of_char c :: nat) div 32 = of_char x div 32 \<and> (of_char c :: nat) mod 32 = of_char x mod 32)"
    by (metis div_mult_mod_eq)
  finally show ?thesis by (simp only: wordOf_nat)
qed

lemma contains_update:
  assumes "length as = 8"
  shows "contains (as[wordOf x := (as ! wordOf x) OR bitOf x]) c = (contains as c \<or> c = x)"
proof (cases "wordOf c = wordOf x")
  case True
  have "wordOf x < length as" using assms wordOf_less by simp
  then have "contains (as[wordOf x := (as ! wordOf x) OR bitOf x]) c
      = (((as ! wordOf x) OR bitOf x) AND bitOf c \<noteq> 0)"
    by (simp add: contains_def True)
  also have "\<dots> = ((as ! wordOf x) AND bitOf c \<noteq> 0 \<or> (of_char x :: nat) mod 32 = of_char c mod 32)"
    unfolding bitOf_nat by (rule bit_or_one) simp_all
  also have "\<dots> = (contains as c \<or> c = x)"
    using True by (auto simp: contains_def char_eq_iff)
  finally show ?thesis .
next
  case False
  then show ?thesis by (auto simp: contains_def)
qed

lemma makeASCIISetLoop_contains:
  "makeASCIISetLoop cs as = Inr as' \<Longrightarrow> length as = 8 \<Longrightarrow>
   contains as' c = (contains as c \<or> c \<in> set cs)"
proof (induction cs arbitrary: as)
  case Nil
  then show ?case by simp
next
  case (Cons x cs)
  from Cons.prems have step:
    "makeASCIISetLoop cs (as[wordOf x := (as ! wordOf x) OR bitOf x]) = Inr as'"
    by (simp split: if_splits)
  have "contains as' c = (contains (as[wordOf x := (as ! wordOf x) OR bitOf x]) c \<or> c \<in> set cs)"
    by (rule Cons.IH [OF step]) (simp add: Cons.prems)
  then show ?case by (auto simp: contains_update [OF Cons.prems(2)])
qed

lemma contains_empty: "contains (replicate 8 0) c = False"
  using wordOf_less [of c] by (simp add: contains_def)

lemma makeASCIISet_contains:
  "makeASCIISet chars = Inr as \<Longrightarrow> contains as c = (c \<in> set chars)"
  using makeASCIISetLoop_contains [of chars "replicate 8 0" as c]
  by (simp add: makeASCIISet_def contains_empty)

lemma makeASCIISet_space: "makeASCIISet spaceChars = Inr [0x3600, 1, 0, 0, 0, 0, 0, 0]"
  by code_simp

lemma contains_space: "contains spaceAsciiSet c = (c \<in> set spaceChars)"
  by (rule makeASCIISet_contains) (simp add: spaceAsciiSet_def makeASCIISet_space)

subsection \<open>Whitespace-separated lists\<close>

text \<open>
  The token list of the spec: the value is split on runs of the whitespace set, and no
  token is empty (a run at either end separates nothing).
\<close>

definition isSpace :: "char \<Rightarrow> bool" where
  "isSpace c = (c \<in> set spaceChars)"

function tokens :: "string \<Rightarrow> string list" where
  "tokens s =
     (let s' = dropWhile isSpace s in
      if s' = [] then []
      else takeWhile (\<lambda>c. \<not> isSpace c) s' # tokens (dropWhile (\<lambda>c. \<not> isSpace c) s'))"
  by pat_completeness auto
termination
proof (relation "measure length")
  show "wf (measure length)" by simp
next
  fix s s' :: string
  assume s': "s' = dropWhile isSpace s" and ne: "s' \<noteq> []"
  have "\<not> isSpace (hd s')" using s' ne by (metis hd_dropWhile)
  then have "dropWhile (\<lambda>c. \<not> isSpace c) s' = dropWhile (\<lambda>c. \<not> isSpace c) (tl s')"
    using ne by (cases s') simp_all
  moreover have "length (dropWhile (\<lambda>c. \<not> isSpace c) (tl s')) \<le> length (tl s')"
    by (rule length_dropWhile_le)
  ultimately have "length (dropWhile (\<lambda>c. \<not> isSpace c) s') \<le> length (tl s')"
    by simp
  also have "\<dots> < length s'" using ne by (cases s') simp_all
  also have "\<dots> \<le> length s" by (simp add: s' length_dropWhile_le)
  finally show "(dropWhile (\<lambda>c. \<not> isSpace c) s', s) \<in> measure length" by simp
qed

declare tokens.simps [simp del]

lemma tokens_Nil: "tokens [] = []"
  by (simp add: tokens.simps)

lemma tokens_space: "isSpace c \<Longrightarrow> tokens (c # cs) = tokens cs"
  by (simp add: tokens.simps [of "c # cs"] tokens.simps [of cs])

lemma tokens_word:
  "s \<noteq> [] \<Longrightarrow> \<not> isSpace (hd s) \<Longrightarrow>
   tokens s = takeWhile (\<lambda>c. \<not> isSpace c) s # tokens (dropWhile (\<lambda>c. \<not> isSpace c) s)"
  by (cases s) (simp_all add: tokens.simps [of "_ # _"])

lemma tokens_nonempty: "[] \<notin> set (tokens s)"
proof (induction s rule: tokens.induct)
  case (1 s)
  show ?case
  proof (cases "dropWhile isSpace s = []")
    case True
    then show ?thesis by (simp add: tokens.simps [of s])
  next
    case False
    then have "\<not> isSpace (hd (dropWhile isSpace s))" by (metis hd_dropWhile)
    then have "takeWhile (\<lambda>c. \<not> isSpace c) (dropWhile isSpace s) \<noteq> []"
      using False by (cases "dropWhile isSpace s") simp_all
    with 1 [OF refl False] False show ?thesis
      by (simp add: tokens.simps [of s] Let_def)
  qed
qed

lemma indexFrom_eq:
  "indexFrom as s i =
     (if \<exists>c\<in>set s. contains as c then i + int (length (takeWhile (\<lambda>c. \<not> contains as c) s)) else - 1)"
  by (induction s arbitrary: i) auto

lemma index_space:
  "index spaceAsciiSet s =
     (if \<exists>c\<in>set s. isSpace c then int (length (takeWhile (\<lambda>c. \<not> isSpace c) s)) else - 1)"
  by (simp add: index_def indexFrom_eq contains_space isSpace_def)

lemma index_range: "index spaceAsciiSet s = - 1 \<or> (0 \<le> index spaceAsciiSet s \<and> index spaceAsciiSet s < int (length s))"
proof (cases "\<exists>c\<in>set s. isSpace c")
  case True
  then have "dropWhile (\<lambda>c. \<not> isSpace c) s \<noteq> []"
    by (simp add: dropWhile_eq_Nil_conv)
  moreover have "length s = length (takeWhile (\<lambda>c. \<not> isSpace c) s) + length (dropWhile (\<lambda>c. \<not> isSpace c) s)"
    by (metis length_append takeWhile_dropWhile_id)
  ultimately have "length (takeWhile (\<lambda>c. \<not> isSpace c) s) < length s"
    by simp
  with True show ?thesis by (simp add: index_space)
next
  case False
  then show ?thesis by (simp add: index_space)
qed

text \<open>For a value that is not empty, \<^verbatim>\<open>matchInclude\<close> is membership in the token list.\<close>

lemma matchInclude_tokens:
  "v \<noteq> [] \<Longrightarrow> matchInclude v s = (v \<in> set (tokens s))"
proof (induction v s rule: matchInclude.induct)
  case (1 v s)
  show ?case
  proof (cases "s = []")
    case True
    then show ?thesis by (simp add: matchInclude.simps [of v "[]"] tokens_Nil)
  next
    case ne: False
    show ?thesis
    proof (cases "\<exists>c\<in>set s. isSpace c")
      case False
      then have all: "\<forall>c\<in>set s. \<not> isSpace c" by simp
      then have hd: "\<not> isSpace (hd s)" using ne by simp
      have tw: "takeWhile (\<lambda>c. \<not> isSpace c) s = s" and dw: "dropWhile (\<lambda>c. \<not> isSpace c) s = []"
        using all by (simp_all add: dropWhile_eq_Nil_conv)
      have "tokens s = [s]"
        by (simp only: tokens_word [OF ne hd] tw dw tokens_Nil)
      moreover have "matchInclude v s = (s = v)"
        using ne False by (simp add: matchInclude.simps [of v s] index_space)
      ultimately show ?thesis by auto
    next
      case True
      define seg where "seg = takeWhile (\<lambda>c. \<not> isSpace c) s"
      define rest where "rest = drop (length seg + 1) s"
      have idx: "index spaceAsciiSet s = int (length seg)"
        using True by (simp add: index_space seg_def)
      have seg: "take (length seg) s = seg"
        by (simp add: seg_def takeWhile_eq_take [symmetric])
      have dw: "dropWhile (\<lambda>c. \<not> isSpace c) s = drop (length seg) s"
        by (simp add: seg_def dropWhile_eq_drop)
      have dne: "dropWhile (\<lambda>c. \<not> isSpace c) s \<noteq> []"
        using True by (simp add: dropWhile_eq_Nil_conv)
      then obtain c where c: "dropWhile (\<lambda>c. \<not> isSpace c) s = c # rest"
        unfolding dw rest_def by (cases "drop (length seg) s") (simp_all add: drop_Suc tl_drop [symmetric] drop_tl)
      have sp: "isSpace c" using c dne by (metis hd_dropWhile list.sel(1))
      have mi: "matchInclude v s = (seg = v \<or> matchInclude v rest)"
        using ne by (simp add: matchInclude.simps [of v s] idx seg rest_def)
      have ih: "matchInclude v rest = (v \<in> set (tokens rest))" if "seg \<noteq> v"
        using "1.IH" [OF ne refl _ _ "1.prems"] that by (simp add: idx seg rest_def)
      have tk: "set (tokens s) - {[]} = (set (seg # tokens rest)) - {[]}"
      proof (cases "seg = []")
        case True
        then have "s = c # rest" using c ne by (metis seg_def takeWhile_dropWhile_id append_Nil)
        then show ?thesis using sp True by (simp add: tokens_space)
      next
        case False
        then have "\<not> isSpace (hd s)" using ne by (cases s) (auto simp: seg_def split: if_splits)
        then show ?thesis using ne by (simp add: tokens_word seg_def [symmetric] c tokens_space sp)
      qed
      have "(v \<in> set (tokens s)) = (v = seg \<or> v \<in> set (tokens rest))"
        using tk "1.prems" by auto
      with mi ih show ?thesis by auto
    qed
  qed
qed

text \<open>
  C5. With the empty value the two differ. The class attribute of \<open>nodeTwo\<close> is
  \<^verbatim>\<open>" b"\<close>, whose token list is \<^verbatim>\<open>["b"]\<close>; \<^verbatim>\<open>matchInclude\<close> cuts at the first
  whitespace character, compares the empty text before it with the value and returns
  true, and so \<^verbatim>\<open>[class~=""]\<close> matches the node.
\<close>

theorem matchInclude_empty_value:
  "tokens '' b'' = [''b''] \<and>
   matchInclude [] '' b'' = True \<and>
   Match asciiTrim (attrSel \<lparr>key = ''class'', val = [], operation = ''~='', regexp = None\<rparr>) nodeTwo
     = Inr True"
  by code_simp

subsection \<open>The operator \<^verbatim>\<open>!=\<close>\<close>

text \<open>
  The condition of the spec for \<^verbatim>\<open>!=\<close>: the node has no attribute named \<open>k\<close>, or it
  has an attribute \<open>k\<close> with a value different from \<open>v\<close>.
\<close>

definition absentOrDifferent :: "string \<Rightarrow> string \<Rightarrow> Node \<Rightarrow> bool" where
  "absentOrDifferent k v n =
     ((\<forall>a\<in>set (nAttr n). Key a \<noteq> k) \<or> (\<exists>a\<in>set (nAttr n). Key a = k \<and> Val a \<noteq> v))"

definition nodeText :: Node where
  "nodeText = (leaf TextNode ''text'', Place [pOne] (label (fst family)) Top
                 [leaf CommentNode ''note'', pTwo])"

lemma attributeNotEqualLoop_all:
  "attributeNotEqualLoop as k v = (\<forall>a\<in>set as. Key a = k \<longrightarrow> Val a \<noteq> v)"
  by (induction as) auto

lemma distinct_keys_unique:
  "distinct (map Key as) \<Longrightarrow> a \<in> set as \<Longrightarrow> b \<in> set as \<Longrightarrow> Key a = Key b \<Longrightarrow> a = b"
  by (auto simp: distinct_map dest: inj_onD)

text \<open>
  C4, as the code has it. A selector with the operator \<^verbatim>\<open>!=\<close> matches a node exactly
  when the node is an element and none of its attribute pairs has the key \<open>k\<close> with the
  value \<open>v\<close>. On an element whose attribute keys are distinct this is the condition of
  the spec.
\<close>

theorem attributeNotEqual_element:
  "(operation t = ''!='' \<longrightarrow>
      Match TrimSpace (attrSel t) n =
        Inr (nType n = ElementNode \<and> (\<forall>a\<in>set (nAttr n). Key a = key t \<longrightarrow> Val a \<noteq> val t))) \<and>
   (operation t = ''!='' \<longrightarrow> nType n = ElementNode \<longrightarrow> distinct (map Key (nAttr n)) \<longrightarrow>
      (Match TrimSpace (attrSel t) n = Inr True) = absentOrDifferent (key t) (val t) n)"
proof (intro conjI impI)
  assume op: "operation t = ''!=''"
  then show code: "Match TrimSpace (attrSel t) n =
      Inr (nType n = ElementNode \<and> (\<forall>a\<in>set (nAttr n). Key a = key t \<longrightarrow> Val a \<noteq> val t))"
    by (simp add: attrSelector_Match_def attributeNotEqualMatch_def attributeNotEqualLoop_all)
  assume elt: "nType n = ElementNode" and keys: "distinct (map Key (nAttr n))"
  have "(\<forall>a\<in>set (nAttr n). Key a = key t \<longrightarrow> Val a \<noteq> val t)
      = absentOrDifferent (key t) (val t) n"
  proof
    assume "\<forall>a\<in>set (nAttr n). Key a = key t \<longrightarrow> Val a \<noteq> val t"
    then show "absentOrDifferent (key t) (val t) n"
      unfolding absentOrDifferent_def by blast
  next
    assume spec: "absentOrDifferent (key t) (val t) n"
    show "\<forall>a\<in>set (nAttr n). Key a = key t \<longrightarrow> Val a \<noteq> val t"
    proof (intro ballI impI)
      fix a
      assume a: "a \<in> set (nAttr n)" "Key a = key t"
      with spec obtain b where b: "b \<in> set (nAttr n)" "Key b = key t" "Val b \<noteq> val t"
        unfolding absentOrDifferent_def by blast
      have "a = b"
        by (rule distinct_keys_unique [OF keys a(1) b(1)]) (simp add: a b)
      with b show "Val a \<noteq> val t"
        by simp
    qed
  qed
  with code elt show "(Match TrimSpace (attrSel t) n = Inr True)
      = absentOrDifferent (key t) (val t) n"
    by simp
qed

theorem attributeNotEqual_element_witness:
  "Match asciiTrim (attrSel \<lparr>key = ''id'', val = ''one'', operation = ''!='', regexp = None\<rparr>) nodeTwo
     = Inr True \<and>
   absentOrDifferent ''id'' ''one'' nodeTwo \<and>
   Match asciiTrim (attrSel \<lparr>key = ''id'', val = ''one'', operation = ''!='', regexp = None\<rparr>) nodeOne
     = Inr False"
proof -
  let ?t = "\<lparr>key = ''id'', val = ''one'', operation = ''!='', regexp = None\<rparr>"
  have op: "operation ?t = ''!=''"
    by simp
  have two: "nType nodeTwo = ElementNode \<and> distinct (map Key (nAttr nodeTwo)) \<and>
      (\<forall>a\<in>set (nAttr nodeTwo). Key a = ''id'' \<longrightarrow> Val a \<noteq> ''one'')"
    by code_simp
  have one: "\<not> (\<forall>a\<in>set (nAttr nodeOne). Key a = ''id'' \<longrightarrow> Val a \<noteq> ''one'')"
    by code_simp
  have abs: "absentOrDifferent ''id'' ''one'' nodeTwo"
    using attributeNotEqual_element [of ?t asciiTrim nodeTwo] op two by auto
  show ?thesis
    using attributeNotEqual_element [of ?t asciiTrim nodeTwo]
      attributeNotEqual_element [of ?t asciiTrim nodeOne] op two one abs
    by simp
qed

text \<open>
  The claim as stated fails on a node that is not an element: the text node of
  \<open>family\<close> has no attribute at all, and the selector does not match it.
\<close>

theorem attributeNotEqual_counterexample:
  "(Match asciiTrim (attrSel \<lparr>key = ''id'', val = ''one'', operation = ''!='', regexp = None\<rparr>)
      nodeText = Inr True)
     \<noteq> absentOrDifferent ''id'' ''one'' nodeText"
proof -
  have code: "Match asciiTrim (attrSel \<lparr>key = ''id'', val = ''one'', operation = ''!='', regexp = None\<rparr>)
      nodeText = Inr False"
    by code_simp
  have spec: "absentOrDifferent ''id'' ''one'' nodeText"
    by code_simp
  show ?thesis
    unfolding code using spec by simp
qed


subsection \<open>Which pair an attribute selector reads\<close>

text \<open>
  The predicate of each operator on one attribute value, in the words of the spec: for
  \<^verbatim>\<open>~=\<close> the value of the selector is one element of the token list of the attribute
  value, and a value is blank when \<^verbatim>\<open>strings.TrimSpace\<close> leaves nothing of it. And the
  lookup of the spec, which evaluates the predicate on the first pair with the selector's
  key (for \<^verbatim>\<open>!=\<close> an absent attribute matches).
\<close>

definition valuePredicate :: "(string \<Rightarrow> string) \<Rightarrow> attrSelector \<Rightarrow> string \<Rightarrow> bool" where
  "valuePredicate TrimSpace t s =
     (if operation t = [] then True
      else if operation t = ''='' then s = val t
      else if operation t = ''!='' then s \<noteq> val t
      else if operation t = ''~='' then val t \<in> set (tokens s)
      else if operation t = ''|='' then s = val t \<or> prefix (val t @ ''-'') s
      else if operation t = ''^='' then TrimSpace s \<noteq> [] \<and> prefix (val t) s
      else if operation t = ''$='' then TrimSpace s \<noteq> [] \<and> suffix (val t) s
      else if operation t = ''*='' then TrimSpace s \<noteq> [] \<and> sublist (val t) s
      else if operation t = ''#='' then (case regexp t of None \<Rightarrow> False | Some r \<Rightarrow> r s)
      else False)"

definition firstMatchWins :: "(string \<Rightarrow> string) \<Rightarrow> attrSelector \<Rightarrow> Node \<Rightarrow> bool" where
  "firstMatchWins TrimSpace t n =
     (case find (\<lambda>a. Key a = key t) (nAttr n) of
        None \<Rightarrow> operation t = ''!=''
      | Some a \<Rightarrow> valuePredicate TrimSpace t (Val a))"

text \<open>
  The selectors that go through \<^verbatim>\<open>matchAttribute\<close> with a callback that returns the
  predicate of the spec: every operator but \<^verbatim>\<open>!=\<close>, with a value that is not empty for
  \<^verbatim>\<open>~=\<close> (on the empty value \<^verbatim>\<open>matchInclude\<close> is not membership in the token list,
  see C5) and a compiled pattern for the regex operator.
\<close>

definition positive :: "attrSelector \<Rightarrow> bool" where
  "positive t =
     (operation t \<in> set [[], ''='', ''|='', ''^='', ''$='', ''*='']
      \<or> (operation t = ''~='' \<and> val t \<noteq> [])
      \<or> (operation t = ''#='' \<and> regexp t \<noteq> None))"

definition nodeTwice :: Node where
  "nodeTwice = (elem ''p'' [attr ''k'' ''a'', attr ''k'' ''b''] [], Top)"

definition nodeOnce :: Node where
  "nodeOnce = (elem ''p'' [attr ''k'' ''a''] [], Top)"

lemma matchAttributeLoop_any:
  "matchAttributeLoop as k (\<lambda>s. Inr (p s)) = Inr (\<exists>a\<in>set as. Key a = k \<and> p (Val a))"
  by (induction as) auto

lemma matchAttribute_any:
  "matchAttribute n k (\<lambda>s. Inr (p s)) = Inr (\<exists>a\<in>set (nAttr n). Key a = k \<and> p (Val a))"
  by (simp add: matchAttribute_def matchAttributeLoop_any)

lemma dash_prefix:
  "(if s = v then True
    else if length s \<le> length v then False
    else if take (length v) s = v \<and> s ! length v = c then True
    else False) = (s = v \<or> prefix (v @ [c]) s)"
proof (cases "s = v")
  case True
  then show ?thesis by simp
next
  case False
  have "(length v < length s \<and> take (length v) s = v \<and> s ! length v = c) = prefix (v @ [c]) s"
  proof
    assume h: "length v < length s \<and> take (length v) s = v \<and> s ! length v = c"
    then have "length v < length s"
      by simp
    then have "s = take (length v) s @ s ! length v # drop (Suc (length v)) s"
      by (rule id_take_nth_drop)
    with h have "s = (v @ [c]) @ drop (Suc (length v)) s"
      by simp
    then show "prefix (v @ [c]) s"
      by (metis prefixI)
  next
    assume "prefix (v @ [c]) s"
    then obtain r where "s = (v @ [c]) @ r"
      by (auto simp: prefix_def)
    then show "length v < length s \<and> take (length v) s = v \<and> s ! length v = c"
      by simp
  qed
  with False show ?thesis by auto
qed

lemma positive_Match:
  assumes "positive t"
  shows "Match TrimSpace (attrSel t) n =
    Inr (\<exists>a\<in>set (nAttr n). Key a = key t \<and> valuePredicate TrimSpace t (Val a))"
proof -
  consider "operation t = []" | "operation t = ''=''"
    | "operation t = ''~=''" "val t \<noteq> []"
    | "operation t = ''|=''" | "operation t = ''^=''" | "operation t = ''$=''"
    | "operation t = ''*=''" | r where "operation t = ''#=''" "regexp t = Some r"
    using assms by (auto simp: positive_def)
  then show ?thesis
  proof cases
    case 1
    then show ?thesis
      by (simp add: attrSelector_Match_def valuePredicate_def matchAttribute_any)
  next
    case 2
    then show ?thesis
      by (simp add: attrSelector_Match_def valuePredicate_def matchAttribute_any)
  next
    case 3
    then show ?thesis
      by (simp add: attrSelector_Match_def valuePredicate_def matchAttribute_any
          matchInclude_tokens)
  next
    case 4
    then show ?thesis
      by (simp add: attrSelector_Match_def valuePredicate_def attributeDashMatch_def
          dash_prefix matchAttribute_any)
  next
    case 5
    then show ?thesis
      by (auto simp: attrSelector_Match_def valuePredicate_def attributePrefixMatch_def
          matchAttribute_any)
  next
    case 6
    then show ?thesis
      by (auto simp: attrSelector_Match_def valuePredicate_def attributeSuffixMatch_def
          matchAttribute_any)
  next
    case 7
    then show ?thesis
      by (auto simp: attrSelector_Match_def valuePredicate_def attributeSubstringMatch_def
          matchAttribute_any)
  next
    case 8
    then show ?thesis
      by (simp add: attrSelector_Match_def valuePredicate_def attributeRegexMatch_def
          matchAttribute_any)
  qed
qed

lemma single_pair:
  "length (filter Q as) \<le> 1 \<Longrightarrow>
   (\<exists>a\<in>set as. Q a \<and> P a) = (case find Q as of None \<Rightarrow> False | Some a \<Rightarrow> P a) \<and>
   (\<forall>a\<in>set as. Q a \<longrightarrow> P a) = (case find Q as of None \<Rightarrow> True | Some a \<Rightarrow> P a)"
proof (induction as)
  case Nil
  then show ?case by simp
next
  case (Cons x as)
  show ?case
  proof (cases "Q x")
    case True
    with Cons.prems have "filter Q as = []" by simp
    then have "\<forall>a\<in>set as. \<not> Q a" by (simp add: filter_empty_conv)
    with True show ?thesis by auto
  next
    case False
    with Cons show ?thesis by simp
  qed
qed


lemma notEqual_Match:
  "operation t = ''!='' \<Longrightarrow>
   Match TrimSpace (attrSel t) n =
     Inr (nType n = ElementNode \<and>
          (\<forall>a\<in>set (nAttr n). Key a = key t \<longrightarrow> valuePredicate TrimSpace t (Val a)))"
  by (simp add: attrSelector_Match_def attributeNotEqualMatch_def attributeNotEqualLoop_all
      valuePredicate_def)

lemma positive_not_notEqual: "positive t \<Longrightarrow> operation t \<noteq> ''!=''"
  by (auto simp: positive_def)

text \<open>
  C3, as the code has it. The lookup is not first-match-wins. A selector with the
  operator exists, \<^verbatim>\<open>=\<close>, \<^verbatim>\<open>|=\<close>, \<^verbatim>\<open>^=\<close>, \<^verbatim>\<open>$=\<close>, \<^verbatim>\<open>*=\<close> or regex, or with
  \<^verbatim>\<open>~=\<close> and a value that is not empty, matches when some pair with its key has a
  value satisfying the operator's predicate; one with \<^verbatim>\<open>!=\<close> matches an element when
  every pair with its key satisfies it. When at most one pair of the node has the key,
  that is the predicate on the first such pair (for \<^verbatim>\<open>!=\<close>, on an element node).
  Nothing is said of \<^verbatim>\<open>~=\<close> with the empty value.
\<close>

theorem attrSelector_Match_lookup:
  "(positive t \<longrightarrow>
      Match TrimSpace (attrSel t) n =
        Inr (\<exists>a\<in>set (nAttr n). Key a = key t \<and> valuePredicate TrimSpace t (Val a))) \<and>
   (operation t = ''!='' \<longrightarrow>
      Match TrimSpace (attrSel t) n =
        Inr (nType n = ElementNode \<and>
             (\<forall>a\<in>set (nAttr n). Key a = key t \<longrightarrow> valuePredicate TrimSpace t (Val a)))) \<and>
   (positive t \<or> (operation t = ''!='' \<and> nType n = ElementNode) \<longrightarrow>
    length (filter (\<lambda>a. Key a = key t) (nAttr n)) \<le> 1 \<longrightarrow>
      Match TrimSpace (attrSel t) n = Inr (firstMatchWins TrimSpace t n))"
proof (intro conjI impI)
  assume "positive t"
  then show "Match TrimSpace (attrSel t) n =
      Inr (\<exists>a\<in>set (nAttr n). Key a = key t \<and> valuePredicate TrimSpace t (Val a))"
    by (rule positive_Match)
next
  assume "operation t = ''!=''"
  then show "Match TrimSpace (attrSel t) n =
      Inr (nType n = ElementNode \<and>
           (\<forall>a\<in>set (nAttr n). Key a = key t \<longrightarrow> valuePredicate TrimSpace t (Val a)))"
    by (rule notEqual_Match)
next
  assume op: "positive t \<or> (operation t = ''!='' \<and> nType n = ElementNode)"
    and one: "length (filter (\<lambda>a. Key a = key t) (nAttr n)) \<le> 1"
  note single = single_pair [OF one, of "\<lambda>a. valuePredicate TrimSpace t (Val a)"]
  from op show "Match TrimSpace (attrSel t) n = Inr (firstMatchWins TrimSpace t n)"
  proof
    assume pos: "positive t"
    then have "firstMatchWins TrimSpace t n =
        (case find (\<lambda>a. Key a = key t) (nAttr n) of
           None \<Rightarrow> False
         | Some a \<Rightarrow> valuePredicate TrimSpace t (Val a))"
      by (simp add: firstMatchWins_def positive_not_notEqual split: option.splits)
    with single have "(\<exists>a\<in>set (nAttr n). Key a = key t \<and> valuePredicate TrimSpace t (Val a))
        = firstMatchWins TrimSpace t n"
      by simp
    with positive_Match [OF pos, of TrimSpace n] show ?thesis
      by (simp only:)
  next
    assume ne: "operation t = ''!='' \<and> nType n = ElementNode"
    then have "firstMatchWins TrimSpace t n =
        (case find (\<lambda>a. Key a = key t) (nAttr n) of
           None \<Rightarrow> True
         | Some a \<Rightarrow> valuePredicate TrimSpace t (Val a))"
      by (simp add: firstMatchWins_def split: option.splits)
    with single ne
    have "(nType n = ElementNode \<and>
           (\<forall>a\<in>set (nAttr n). Key a = key t \<longrightarrow> valuePredicate TrimSpace t (Val a)))
        = firstMatchWins TrimSpace t n"
      by simp
    with notEqual_Match [of t TrimSpace n] ne show ?thesis
      by (simp only:)
  qed
qed

theorem attrSelector_Match_lookup_witness:
  "Match asciiTrim (attrSel \<lparr>key = ''id'', val = ''tw'', operation = ''^='', regexp = None\<rparr>) nodeTwo
     = Inr True \<and>
   Match asciiTrim (attrSel \<lparr>key = ''k'', val = ''b'', operation = ''='', regexp = None\<rparr>) nodeTwice
     = Inr True \<and>
   Match asciiTrim (attrSel \<lparr>key = ''k'', val = ''a'', operation = ''!='', regexp = None\<rparr>) nodeTwice
     = Inr False \<and>
   Match asciiTrim (attrSel \<lparr>key = ''class'', val = ''b'', operation = ''~='', regexp = None\<rparr>) nodeTwo
     = Inr True"
proof -
  let ?w = "\<lparr>key = ''class'', val = ''b'', operation = ''~='', regexp = None\<rparr>"
  let ?p = "\<lparr>key = ''id'', val = ''tw'', operation = ''^='', regexp = None\<rparr>"
  let ?e = "\<lparr>key = ''k'', val = ''b'', operation = ''='', regexp = None\<rparr>"
  let ?d = "\<lparr>key = ''k'', val = ''a'', operation = ''!='', regexp = None\<rparr>"
  have pos: "positive ?p" "positive ?e" "positive ?w" and op: "operation ?d = ''!=''"
    by (simp_all add: positive_def)
  have once: "length (filter (\<lambda>a. Key a = key ?p) (nAttr nodeTwo)) \<le> 1"
    by code_simp
  have first: "firstMatchWins asciiTrim ?p nodeTwo"
    by code_simp
  have some: "\<exists>a\<in>set (nAttr nodeTwice). Key a = key ?e \<and> valuePredicate asciiTrim ?e (Val a)"
    by code_simp
  have notAll: "\<not> (\<forall>a\<in>set (nAttr nodeTwice). Key a = key ?d \<longrightarrow> valuePredicate asciiTrim ?d (Val a))"
    by code_simp
  from attrSelector_Match_lookup [of ?p asciiTrim nodeTwo] pos(1) once
  have "Match asciiTrim (attrSel ?p) nodeTwo = Inr (firstMatchWins asciiTrim ?p nodeTwo)"
    by blast
  with first have a: "Match asciiTrim (attrSel ?p) nodeTwo = Inr True"
    by simp
  from attrSelector_Match_lookup [of ?e asciiTrim nodeTwice] pos(2)
  have "Match asciiTrim (attrSel ?e) nodeTwice =
      Inr (\<exists>a\<in>set (nAttr nodeTwice). Key a = key ?e \<and> valuePredicate asciiTrim ?e (Val a))"
    by blast
  with some have b: "Match asciiTrim (attrSel ?e) nodeTwice = Inr True"
    by simp
  from attrSelector_Match_lookup [of ?d asciiTrim nodeTwice] op
  have "Match asciiTrim (attrSel ?d) nodeTwice =
      Inr (nType nodeTwice = ElementNode \<and>
           (\<forall>a\<in>set (nAttr nodeTwice). Key a = key ?d \<longrightarrow> valuePredicate asciiTrim ?d (Val a)))"
    by blast
  with notAll have c: "Match asciiTrim (attrSel ?d) nodeTwice = Inr False"
    by simp
  have token: "\<exists>a\<in>set (nAttr nodeTwo). Key a = key ?w \<and> valuePredicate asciiTrim ?w (Val a)"
    by code_simp
  from attrSelector_Match_lookup [of ?w asciiTrim nodeTwo] pos(3)
  have "Match asciiTrim (attrSel ?w) nodeTwo =
      Inr (\<exists>a\<in>set (nAttr nodeTwo). Key a = key ?w \<and> valuePredicate asciiTrim ?w (Val a))"
    by blast
  with token have d: "Match asciiTrim (attrSel ?w) nodeTwo = Inr True"
    by simp
  from a b c d show ?thesis
    by (intro conjI)
qed

text \<open>
  The claim as stated fails on \<open>nodeTwice\<close>, whose attributes are \<^verbatim>\<open>k="a"\<close> and then
  \<^verbatim>\<open>k="b"\<close>: the first pair with the key \<open>k\<close> has the value \<open>a\<close>, and \<^verbatim>\<open>[k=b]\<close>
  matches the node all the same, because of the later pair.
\<close>

theorem attrSelector_first_match_counterexample:
  "Match asciiTrim (attrSel \<lparr>key = ''k'', val = ''b'', operation = ''='', regexp = None\<rparr>) nodeTwice
     \<noteq> Inr (firstMatchWins asciiTrim
              \<lparr>key = ''k'', val = ''b'', operation = ''='', regexp = None\<rparr> nodeTwice)"
proof -
  have code: "Match asciiTrim
      (attrSel \<lparr>key = ''k'', val = ''b'', operation = ''='', regexp = None\<rparr>) nodeTwice = Inr True"
    by code_simp
  have spec: "\<not> firstMatchWins asciiTrim
      \<lparr>key = ''k'', val = ''b'', operation = ''='', regexp = None\<rparr> nodeTwice"
    by code_simp
  show ?thesis
    unfolding code using spec by simp
qed

section \<open>Properties of the query functions\<close>

text \<open>
  The children of a node in document order, and its strict descendants in depth-first
  pre-order: each child, followed by the child's own descendants.
\<close>

fun rightward :: "tree \<Rightarrow> tree list \<Rightarrow> NodeData \<Rightarrow> place \<Rightarrow> tree list \<Rightarrow> Node list" where
  "rightward t ls d u [] = [(t, Place ls d u [])]"
| "rightward t ls d u (r # rs) = (t, Place ls d u (r # rs)) # rightward r (t # ls) d u rs"

fun children :: "Node \<Rightarrow> Node list" where
  "children (Tree d [], c) = []"
| "children (Tree d (k # ks), c) = rightward k [] d c ks"

lemma rightward_subtree: "k \<in> set (rightward t ls d u rs) \<Longrightarrow> fst k \<in> set (t # rs)"
  by (induction rs arbitrary: t ls) auto

lemma children_smaller: "k \<in> set (children n) \<Longrightarrow> nodes (fst k) < nodes (fst n)"
proof (cases n rule: children.cases)
  case (1 d c)
  assume "k \<in> set (children n)"
  with 1 show ?thesis by simp
next
  case (2 d t ks c)
  assume "k \<in> set (children n)"
  with 2 have "fst k \<in> set (t # ks)"
    by (simp only: children.simps rightward_subtree)
  then have "nodes (fst k) \<le> sum_list (map nodes (t # ks))"
    by (simp only: member_le_sum_list image_eqI set_map)
  with 2 show ?thesis by simp
qed

function descendants :: "Node \<Rightarrow> Node list" where
  "descendants n = concat (map (\<lambda>k. k # descendants k) (children n))"
  by pat_completeness auto
termination
  by (relation "measure (\<lambda>n. nodes (fst n))") (simp_all add: children_smaller)

declare descendants.simps [simp del]


text \<open>A node with the siblings after it, and everything at or below them, in document order.\<close>

fun fromHere :: "Node option \<Rightarrow> Node list" where
  "fromHere None = []"
| "fromHere (Some (t, Top)) = [(t, Top)]"
| "fromHere (Some (t, Place ls d u rs)) = rightward t ls d u rs"

definition below :: "Node option \<Rightarrow> Node list" where
  "below po = concat (map (\<lambda>k. k # descendants k) (fromHere po))"

lemma fromHere_Some: "fromHere (Some c) = c # fromHere (NextSibling c)"
proof (cases c rule: NextSibling.cases)
  case (1 t ls d u r rs)
  then show ?thesis by simp
next
  case (2 t ls d u)
  then show ?thesis by simp
next
  case (3 t)
  then show ?thesis by simp
qed

lemma children_FirstChild: "children n = fromHere (FirstChild n)"
  by (cases n rule: FirstChild.cases) simp_all

lemma descendants_below: "descendants n = below (FirstChild n)"
  by (simp add: descendants.simps [of n] below_def children_FirstChild)

lemma below_None: "below None = []"
  by (simp add: below_def)

lemma below_Some: "below (Some c) = c # descendants c @ below (NextSibling c)"
  by (simp add: below_def fromHere_Some)

text \<open>\<^verbatim>\<open>queryInto\<close> appends to the storage it is given.\<close>

lemma queryInto_append:
  "queryInto n m (pre @ storage) =
     (case queryInto n m storage of Inl e \<Rightarrow> Inl e | Inr q \<Rightarrow> Inr (pre @ q))"
  "queryLoop po m (pre @ storage) =
     (case queryLoop po m storage of Inl e \<Rightarrow> Inl e | Inr q \<Rightarrow> Inr (pre @ q))"
proof (induction n m storage and po m storage rule: queryInto_queryLoop.induct)
  case (1 n m storage)
  then show ?case by simp
next
  case (2 m storage)
  then show ?case by simp
next
  case (3 child m storage)
  show ?case
  proof (cases "m child")
    case (Inl e)
    then show ?thesis by simp
  next
    case (Inr b)
    define st where "st = (if b then storage @ [child] else storage)"
    have pre: "(if b then (pre @ storage) @ [child] else pre @ storage) = pre @ st"
      by (simp add: st_def)
    have into: "queryInto child m (pre @ st) =
        (case queryInto child m st of Inl e \<Rightarrow> Inl e | Inr q \<Rightarrow> Inr (pre @ q))"
      using "3.IH"(1) [OF Inr] by (simp add: st_def)
    show ?thesis
    proof (cases "queryInto child m st")
      case (Inl e)
      with Inr into show ?thesis by (simp add: pre st_def [symmetric])
    next
      case inner: (Inr x)
      have "queryLoop (NextSibling child) m (pre @ x) =
          (case queryLoop (NextSibling child) m x of Inl e \<Rightarrow> Inl e | Inr q \<Rightarrow> Inr (pre @ q))"
        using "3.IH"(2) [OF Inr] inner by (simp add: st_def)
      with Inr into inner show ?thesis by (simp add: pre st_def [symmetric])
    qed
  qed
qed

text \<open>\<^verbatim>\<open>matchAllInto\<close> is the test of the node itself followed by \<^verbatim>\<open>queryInto\<close>.\<close>

lemma matchAllInto_queryInto:
  "matchAllInto s n storage =
     (case s n of
        Inl e \<Rightarrow> Inl e
      | Inr b \<Rightarrow> queryInto n s (if b then storage @ [n] else storage))"
  "matchAllLoop s po storage = queryLoop po s storage"
proof (induction s n storage and s po storage rule: matchAllInto_matchAllLoop.induct)
  case (1 s n storage)
  then show ?case by (simp split: sum.splits)
next
  case (2 s storage)
  then show ?case by simp
next
  case (3 s child storage)
  show ?case
  proof (cases "s child")
    case (Inl e)
    with "3.IH"(1) show ?thesis by simp
  next
    case (Inr b)
    show ?thesis
    proof (cases "queryInto child s (if b then storage @ [child] else storage)")
      case (Inl e)
      with Inr "3.IH"(1) show ?thesis by simp
    next
      case inner: (Inr x)
      with Inr "3.IH"(1) have "matchAllInto s child storage = Inr x" by simp
      with "3.IH"(2) Inr inner show ?thesis by simp
    qed
  qed
qed

text \<open>When the matcher returns on every descendant, the result is the filtered pre-order.\<close>

lemma queryInto_descendants:
  "\<forall>d\<in>set (descendants n). \<exists>b. m d = Inr b \<Longrightarrow>
   queryInto n m storage = Inr (storage @ filter (\<lambda>d. m d = Inr True) (descendants n))"
  "\<forall>d\<in>set (below po). \<exists>b. m d = Inr b \<Longrightarrow>
   queryLoop po m storage = Inr (storage @ filter (\<lambda>d. m d = Inr True) (below po))"
proof (induction n m storage and po m storage rule: queryInto_queryLoop.induct)
  case (1 n m storage)
  then show ?case by (simp add: descendants_below)
next
  case (2 m storage)
  then show ?case by (simp add: below_None)
next
  case (3 child m storage)
  from "3.prems" obtain b where b: "m child = Inr b"
    by (auto simp: below_Some)
  from "3.prems" have sub: "\<forall>d\<in>set (descendants child). \<exists>b. m d = Inr b"
    and nxt: "\<forall>d\<in>set (below (NextSibling child)). \<exists>b. m d = Inr b"
    by (simp_all add: below_Some)
  define st where "st = (if b then storage @ [child] else storage)"
  have into: "queryInto child m st =
      Inr (st @ filter (\<lambda>d. m d = Inr True) (descendants child))"
    using "3.IH"(1) [OF b sub] by (simp add: st_def)
  have loop: "queryLoop (NextSibling child) m (st @ filter (\<lambda>d. m d = Inr True) (descendants child)) =
      Inr ((st @ filter (\<lambda>d. m d = Inr True) (descendants child)) @
           filter (\<lambda>d. m d = Inr True) (below (NextSibling child)))"
    using "3.IH"(2) [OF b _ nxt] into by (simp add: st_def)
  have "queryLoop (Some child) m storage =
      queryLoop (NextSibling child) m (st @ filter (\<lambda>d. m d = Inr True) (descendants child))"
    using b into by (simp add: st_def)
  also note loop
  finally show ?case
    using b by (simp add: below_Some st_def)
qed


definition nodeComment :: Node where
  "nodeComment = (leaf CommentNode ''note'', Place [leaf TextNode ''text'', pOne]
                    (label (fst family)) Top [pTwo])"

text \<open>
  C9. When the matcher returns on every strict descendant of \<open>n\<close>, \<^verbatim>\<open>QueryAll\<close> returns
  the strict descendants of \<open>n\<close> that it matches, in depth-first pre-order. And whatever
  the matcher does, \<^verbatim>\<open>MatchAll\<close> at \<open>n\<close> is the test of \<open>n\<close> itself followed by
  \<^verbatim>\<open>QueryAll\<close>: its result is that of \<^verbatim>\<open>QueryAll\<close>, with \<open>n\<close> in front when \<open>n\<close> matches.
\<close>

theorem QueryAll_descendants:
  "((\<forall>d\<in>set (descendants n). \<exists>b. m d = Inr b) \<longrightarrow>
      QueryAll n m = Inr (filter (\<lambda>d. m d = Inr True) (descendants n))) \<and>
   MatchAll m n =
     (case m n of
        Inl e \<Rightarrow> Inl e
      | Inr b \<Rightarrow>
          (case QueryAll n m of
             Inl e \<Rightarrow> Inl e
           | Inr q \<Rightarrow> Inr ((if b then [n] else []) @ q)))"
proof (intro conjI impI)
  assume "\<forall>d\<in>set (descendants n). \<exists>b. m d = Inr b"
  then show "QueryAll n m = Inr (filter (\<lambda>d. m d = Inr True) (descendants n))"
    using queryInto_descendants(1) [of n m "[]"] by (simp add: QueryAll_def)
next
  show "MatchAll m n =
     (case m n of
        Inl e \<Rightarrow> Inl e
      | Inr b \<Rightarrow>
          (case QueryAll n m of
             Inl e \<Rightarrow> Inl e
           | Inr q \<Rightarrow> Inr ((if b then [n] else []) @ q)))"
  proof (cases "m n")
    case (Inl e)
    then show ?thesis
      by (simp add: MatchAll_def matchAllInto_queryInto(1) del: matchAllInto.simps)
  next
    case (Inr b)
    have "MatchAll m n = queryInto n m ((if b then [n] else []) @ [])"
      using Inr
      by (simp add: MatchAll_def matchAllInto_queryInto(1) del: matchAllInto.simps queryInto.simps)
    also have "\<dots> = (case queryInto n m [] of
        Inl e \<Rightarrow> Inl e | Inr q \<Rightarrow> Inr ((if b then [n] else []) @ q))"
      by (rule queryInto_append(1))
    finally show ?thesis
      using Inr by (simp add: QueryAll_def)
  qed
qed

theorem QueryAll_descendants_witness:
  "descendants family = [nodeOne, nodeText, nodeComment, nodeTwo] \<and>
   QueryAll family (Match asciiTrim (compoundSel [] [])) = Inr [nodeOne, nodeTwo] \<and>
   MatchAll (Match asciiTrim (compoundSel [] [])) family = Inr [family, nodeOne, nodeTwo]"
proof -
  let ?m = "Match asciiTrim (compoundSel [] [])"
  have kids: "children family = [nodeOne, nodeText, nodeComment, nodeTwo]"
    by code_simp
  have none: "children nodeOne = []" "children nodeText = []" "children nodeComment = []"
      "children nodeTwo = []"
    by code_simp+
  have ds: "descendants family = [nodeOne, nodeText, nodeComment, nodeTwo]"
    by (simp add: descendants.simps [of family] descendants.simps [of nodeOne]
        descendants.simps [of nodeText] descendants.simps [of nodeComment]
        descendants.simps [of nodeTwo] kids none)
  have returns: "\<forall>d\<in>set (descendants family). \<exists>b. ?m d = Inr b"
    by simp
  have kept: "filter (\<lambda>d. ?m d = Inr True) (descendants family) = [nodeOne, nodeTwo]"
    unfolding ds by code_simp
  have root: "?m family = Inr True"
    by code_simp
  from QueryAll_descendants [of family ?m] returns kept
  have q: "QueryAll family ?m = Inr [nodeOne, nodeTwo]"
    by simp
  from QueryAll_descendants [of family ?m] root q
  have "MatchAll ?m family = Inr [family, nodeOne, nodeTwo]"
    by simp
  with ds q show ?thesis
    by (intro conjI)
qed

section \<open>The entry points of the parser\<close>

text \<open>
  The four entry points create a \<^verbatim>\<open>parser\<close>, run one of its methods and then look at
  the position it stopped at. The struct has the fields \<^verbatim>\<open>s\<close>, \<^verbatim>\<open>i\<close> and
  \<^verbatim>\<open>acceptPseudoElements\<close>; a field that the literal \<^verbatim>\<open>&parser{s: sel}\<close> leaves out is
  zero. The methods \<^verbatim>\<open>parseSelector\<close> and \<^verbatim>\<open>parseSelectorGroup\<close> are in a file that is
  not among the sources: they are parameters here, functions from the parser they are
  called on to their result and the parser as they leave it. An \<^verbatim>\<open>error\<close> is either one
  they return or the one \<^verbatim>\<open>fmt.Errorf("parsing %q: %d bytes left over", ...)\<close> builds,
  kept with its two arguments.
\<close>

record parser =
  s :: string
  i :: int
  acceptPseudoElements :: bool

datatype error = ParseFailure string | LeftOver string int

definition Parse :: "(parser \<Rightarrow> (error + Sel) \<times> parser) \<Rightarrow> string \<Rightarrow> error + Sel" where
  "Parse parseSelector sel =
     (case parseSelector \<lparr>s = sel, i = 0, acceptPseudoElements = False\<rparr> of
        (Inl err, p) \<Rightarrow> Inl err
      | (Inr compiled, p) \<Rightarrow>
          if i p < int (length sel) then Inl (LeftOver sel (int (length sel) - i p))
          else Inr compiled)"

definition ParseWithPseudoElement :: "(parser \<Rightarrow> (error + Sel) \<times> parser) \<Rightarrow> string \<Rightarrow> error + Sel" where
  "ParseWithPseudoElement parseSelector sel =
     (case parseSelector \<lparr>s = sel, i = 0, acceptPseudoElements = True\<rparr> of
        (Inl err, p) \<Rightarrow> Inl err
      | (Inr compiled, p) \<Rightarrow>
          if i p < int (length sel) then Inl (LeftOver sel (int (length sel) - i p))
          else Inr compiled)"

definition ParseGroup :: "(parser \<Rightarrow> (error + Sel list) \<times> parser) \<Rightarrow> string \<Rightarrow> error + Sel list" where
  "ParseGroup parseSelectorGroup sel =
     (case parseSelectorGroup \<lparr>s = sel, i = 0, acceptPseudoElements = False\<rparr> of
        (Inl err, p) \<Rightarrow> Inl err
      | (Inr compiled, p) \<Rightarrow>
          if i p < int (length sel) then Inl (LeftOver sel (int (length sel) - i p))
          else Inr compiled)"

definition ParseGroupWithPseudoElements :: "(parser \<Rightarrow> (error + Sel list) \<times> parser) \<Rightarrow> string \<Rightarrow> error + Sel list" where
  "ParseGroupWithPseudoElements parseSelectorGroup sel =
     (case parseSelectorGroup \<lparr>s = sel, i = 0, acceptPseudoElements = True\<rparr> of
        (Inl err, p) \<Rightarrow> Inl err
      | (Inr compiled, p) \<Rightarrow>
          if i p < int (length sel) then Inl (LeftOver sel (int (length sel) - i p))
          else Inr compiled)"

text \<open>
  What an entry point makes of the inner result \<open>r\<close> and the final position \<open>pos\<close>: the
  common shape of the four functions, used to state their property once.
\<close>

definition checked :: "string \<Rightarrow> (error + 'a) \<times> parser \<Rightarrow> (error + 'a) \<Rightarrow> bool" where
  "checked sel inner outcome =
     (case inner of
        (Inl err, p) \<Rightarrow> outcome = Inl err
      | (Inr compiled, p) \<Rightarrow>
          (i p < int (length sel) \<longrightarrow> outcome = Inl (LeftOver sel (int (length sel) - i p))) \<and>
          (outcome = Inr compiled) = (int (length sel) \<le> i p))"

text \<open>
  C2. Each of the four entry points returns the inner parser's error when it fails;
  when the inner parse succeeds and stops before the end of the input, it returns the
  error that carries the number of bytes left over; and it returns the selector only
  when the inner parse succeeded with nothing left over.
\<close>

theorem entry_points_consume_all:
  "checked sel (parseSelector \<lparr>s = sel, i = 0, acceptPseudoElements = False\<rparr>)
     (Parse parseSelector sel) \<and>
   checked sel (parseSelector \<lparr>s = sel, i = 0, acceptPseudoElements = True\<rparr>)
     (ParseWithPseudoElement parseSelector sel) \<and>
   checked sel (parseSelectorGroup \<lparr>s = sel, i = 0, acceptPseudoElements = False\<rparr>)
     (ParseGroup parseSelectorGroup sel) \<and>
   checked sel (parseSelectorGroup \<lparr>s = sel, i = 0, acceptPseudoElements = True\<rparr>)
     (ParseGroupWithPseudoElements parseSelectorGroup sel) \<and>
   (\<forall>compiled. Parse parseSelector sel = Inr compiled \<longrightarrow>
      (\<exists>p. parseSelector \<lparr>s = sel, i = 0, acceptPseudoElements = False\<rparr> = (Inr compiled, p)
         \<and> int (length sel) \<le> i p)) \<and>
   (\<forall>compiled. ParseWithPseudoElement parseSelector sel = Inr compiled \<longrightarrow>
      (\<exists>p. parseSelector \<lparr>s = sel, i = 0, acceptPseudoElements = True\<rparr> = (Inr compiled, p)
         \<and> int (length sel) \<le> i p)) \<and>
   (\<forall>compiled. ParseGroup parseSelectorGroup sel = Inr compiled \<longrightarrow>
      (\<exists>p. parseSelectorGroup \<lparr>s = sel, i = 0, acceptPseudoElements = False\<rparr> = (Inr compiled, p)
         \<and> int (length sel) \<le> i p)) \<and>
   (\<forall>compiled. ParseGroupWithPseudoElements parseSelectorGroup sel = Inr compiled \<longrightarrow>
      (\<exists>p. parseSelectorGroup \<lparr>s = sel, i = 0, acceptPseudoElements = True\<rparr> = (Inr compiled, p)
         \<and> int (length sel) \<le> i p))"
proof (intro conjI allI impI)
  show "checked sel (parseSelector \<lparr>s = sel, i = 0, acceptPseudoElements = False\<rparr>)
      (Parse parseSelector sel)"
    by (auto simp: checked_def Parse_def split: prod.splits sum.splits)
  show "checked sel (parseSelector \<lparr>s = sel, i = 0, acceptPseudoElements = True\<rparr>)
      (ParseWithPseudoElement parseSelector sel)"
    by (auto simp: checked_def ParseWithPseudoElement_def split: prod.splits sum.splits)
  show "checked sel (parseSelectorGroup \<lparr>s = sel, i = 0, acceptPseudoElements = False\<rparr>)
      (ParseGroup parseSelectorGroup sel)"
    by (auto simp: checked_def ParseGroup_def split: prod.splits sum.splits)
  show "checked sel (parseSelectorGroup \<lparr>s = sel, i = 0, acceptPseudoElements = True\<rparr>)
      (ParseGroupWithPseudoElements parseSelectorGroup sel)"
    by (auto simp: checked_def ParseGroupWithPseudoElements_def split: prod.splits sum.splits)
next
  fix compiled
  assume "Parse parseSelector sel = Inr compiled"
  then show "\<exists>p. parseSelector \<lparr>s = sel, i = 0, acceptPseudoElements = False\<rparr> = (Inr compiled, p)
      \<and> int (length sel) \<le> i p"
    by (auto simp: Parse_def split: prod.splits sum.splits if_splits)
next
  fix compiled
  assume "ParseWithPseudoElement parseSelector sel = Inr compiled"
  then show "\<exists>p. parseSelector \<lparr>s = sel, i = 0, acceptPseudoElements = True\<rparr> = (Inr compiled, p)
      \<and> int (length sel) \<le> i p"
    by (auto simp: ParseWithPseudoElement_def split: prod.splits sum.splits if_splits)
next
  fix compiled
  assume "ParseGroup parseSelectorGroup sel = Inr compiled"
  then show "\<exists>p. parseSelectorGroup \<lparr>s = sel, i = 0, acceptPseudoElements = False\<rparr> = (Inr compiled, p)
      \<and> int (length sel) \<le> i p"
    by (auto simp: ParseGroup_def split: prod.splits sum.splits if_splits)
next
  fix compiled
  assume "ParseGroupWithPseudoElements parseSelectorGroup sel = Inr compiled"
  then show "\<exists>p. parseSelectorGroup \<lparr>s = sel, i = 0, acceptPseudoElements = True\<rparr> = (Inr compiled, p)
      \<and> int (length sel) \<le> i p"
    by (auto simp: ParseGroupWithPseudoElements_def split: prod.splits sum.splits if_splits)
qed

text \<open>
  Two stand-ins for the inner parser, to run the entry points on: each takes the first
  byte of the input as its selector and stops after it.
\<close>

definition oneByte :: "parser \<Rightarrow> (error + Sel) \<times> parser" where
  "oneByte p = (Inr (neverMatchSel (take 1 (s p))), p\<lparr>i := i p + 1\<rparr>)"

definition oneByteGroup :: "parser \<Rightarrow> (error + Sel list) \<times> parser" where
  "oneByteGroup p = (Inr [neverMatchSel (take 1 (s p))], p\<lparr>i := i p + 1\<rparr>)"

theorem entry_points_consume_all_witness:
  "Parse oneByte ''ab'' = Inl (LeftOver ''ab'' 1) \<and>
   Parse oneByte ''a'' = Inr (neverMatchSel ''a'') \<and>
   ParseWithPseudoElement oneByte ''ab'' = Inl (LeftOver ''ab'' 1) \<and>
   ParseGroup oneByteGroup ''a,b'' = Inl (LeftOver ''a,b'' 2) \<and>
   ParseGroupWithPseudoElements oneByteGroup ''a'' = Inr [neverMatchSel ''a'']"
proof -
  note two = entry_points_consume_all [of "''ab''" oneByte oneByteGroup]
  note one = entry_points_consume_all [of "''a''" oneByte oneByteGroup]
  note three = entry_points_consume_all [of "''a,b''" oneByte oneByteGroup]
  have a: "Parse oneByte ''ab'' = Inl (LeftOver ''ab'' 1)"
    using two [THEN conjunct1] by (simp add: checked_def oneByte_def)
  have b: "Parse oneByte ''a'' = Inr (neverMatchSel ''a'')"
    using one [THEN conjunct1] by (simp add: checked_def oneByte_def)
  have c: "ParseWithPseudoElement oneByte ''ab'' = Inl (LeftOver ''ab'' 1)"
    using two [THEN conjunct2, THEN conjunct1] by (simp add: checked_def oneByte_def)
  have d: "ParseGroup oneByteGroup ''a,b'' = Inl (LeftOver ''a,b'' 2)"
    using three [THEN conjunct2, THEN conjunct2, THEN conjunct1]
    by (simp add: checked_def oneByteGroup_def)
  have e: "ParseGroupWithPseudoElements oneByteGroup ''a'' = Inr [neverMatchSel ''a'']"
    using one [THEN conjunct2, THEN conjunct2, THEN conjunct2, THEN conjunct1]
    by (simp add: checked_def oneByteGroup_def)
  from a b c d e show ?thesis
    by (intro conjI)
qed

end
